theory Spec2Isabelle
  imports Complex_Main "HOL-Library.AList" "HOL-Library.Sublist"
begin

section \<open>Values shared by the pipeline\<close>

text \<open>
  The value \<open>JSON.parse\<close> returns. An object is the list of its properties in insertion
  order; a number is a rational (the schemas below only ask whether it is an integer and
  compare it with bounds).
\<close>

datatype json =
    JNull
  | JBool bool
  | JNum rat
  | JStr string
  | JArr "json list"
  | JObj "(string \<times> json) list"

text \<open>
  \<open>GeneratedVideoSpec\<close> is the output type of \<open>generatedVideoSchema\<close>: the four numeric
  fields are integers there (\<open>z.number().int()\<close>).
\<close>

record GeneratedVideoSpec =
  title :: string
  width :: int
  height :: int
  fps :: int
  durationInFrames :: int
  inputProps :: "(string \<times> json) list"
  componentCode :: string

definition fallbackSpec :: GeneratedVideoSpec where
  "fallbackSpec =
     \<lparr>title = ''Generated Remotion Video'', width = 1280, height = 720, fps = 30,
      durationInFrames = 300, inputProps = [], componentCode = ''''\<rparr>"

section \<open>JavaScript string operations\<close>

text \<open>
  A string is the list of its code units, and a character stands for the code unit of the
  same number (U+0000 to U+00FF). \<open>is_ws\<close> is the white space of \<open>String.prototype.trim\<close>
  and of the regular expression class \<open>\s\<close> in that range; \<open>toLowerCase\<close> maps the
  upper-case letters of that range.
\<close>

definition is_ws :: "char \<Rightarrow> bool" where
  "is_ws c = (c \<in> set [CHR 0x09, CHR 0x0A, CHR 0x0B, CHR 0x0C, CHR 0x0D, CHR 0x20, CHR 0xA0])"

definition trim :: "string \<Rightarrow> string" where
  "trim s = rev (dropWhile is_ws (rev (dropWhile is_ws s)))"

definition upper_chars :: string where
  "upper_chars = ''ABCDEFGHIJKLMNOPQRSTUVWXYZ'' @
     [CHR 0xC0, CHR 0xC1, CHR 0xC2, CHR 0xC3, CHR 0xC4, CHR 0xC5, CHR 0xC6, CHR 0xC7,
      CHR 0xC8, CHR 0xC9, CHR 0xCA, CHR 0xCB, CHR 0xCC, CHR 0xCD, CHR 0xCE, CHR 0xCF,
      CHR 0xD0, CHR 0xD1, CHR 0xD2, CHR 0xD3, CHR 0xD4, CHR 0xD5, CHR 0xD6,
      CHR 0xD8, CHR 0xD9, CHR 0xDA, CHR 0xDB, CHR 0xDC, CHR 0xDD, CHR 0xDE]"

definition lower_chars :: string where
  "lower_chars = ''abcdefghijklmnopqrstuvwxyz'' @
     [CHR 0xE0, CHR 0xE1, CHR 0xE2, CHR 0xE3, CHR 0xE4, CHR 0xE5, CHR 0xE6, CHR 0xE7,
      CHR 0xE8, CHR 0xE9, CHR 0xEA, CHR 0xEB, CHR 0xEC, CHR 0xED, CHR 0xEE, CHR 0xEF,
      CHR 0xF0, CHR 0xF1, CHR 0xF2, CHR 0xF3, CHR 0xF4, CHR 0xF5, CHR 0xF6,
      CHR 0xF8, CHR 0xF9, CHR 0xFA, CHR 0xFB, CHR 0xFC, CHR 0xFD, CHR 0xFE]"

definition lower_char :: "char \<Rightarrow> char" where
  "lower_char c = (case map_of (zip upper_chars lower_chars) c of Some d \<Rightarrow> d | None \<Rightarrow> c)"

definition toLowerCase :: "string \<Rightarrow> string" where
  "toLowerCase s = map lower_char s"

fun str_includes :: "string \<Rightarrow> string \<Rightarrow> bool" where
  "str_includes [] sub = (sub = [])"
| "str_includes (c # cs) sub = (prefix sub (c # cs) \<or> str_includes cs sub)"

definition indexOf :: "string \<Rightarrow> char \<Rightarrow> int" where
  "indexOf s c = (if c \<in> set s then int (length (takeWhile (\<lambda>x. x \<noteq> c) s)) else - 1)"

definition lastIndexOf :: "string \<Rightarrow> char \<Rightarrow> int" where
  "lastIndexOf s c =
     (if c \<in> set s then int (length s) - 1 - int (length (takeWhile (\<lambda>x. x \<noteq> c) (rev s)))
      else - 1)"

definition slice :: "string \<Rightarrow> int \<Rightarrow> int \<Rightarrow> string" where
  "slice s a b =
     (let n = int (length s);
          from = (if a < 0 then max (n + a) 0 else min a n);
          to = (if b < 0 then max (n + b) 0 else min b n)
      in take (nat (to - from)) (drop (nat from) s))"

definition digit_char :: "nat \<Rightarrow> char" where
  "digit_char d = ''0123456789'' ! d"

fun show_nat :: "nat \<Rightarrow> string" where
  "show_nat n = (if n < 10 then [digit_char n] else show_nat (n div 10) @ [digit_char (n mod 10)])"

declare show_nat.simps [simp del]


text \<open>\<open>x || d\<close> on numbers (zero is falsy) and on strings (the empty string is falsy).\<close>

definition num_or :: "int \<Rightarrow> int \<Rightarrow> int" where
  "num_or x d = (if x = 0 then d else x)"

definition str_or :: "string \<Rightarrow> string \<Rightarrow> string" where
  "str_or x d = (if x = [] then d else x)"

section \<open>Errors\<close>

text \<open>
  What a \<open>throw\<close> carries: an \<open>Error\<close> with its message, the \<open>SyntaxError\<close> of
  \<open>JSON.parse\<close>, a \<open>ZodError\<close> with its issues (path and issue code), or a value that is
  not an \<open>Error\<close> instance.
\<close>

type_synonym zod_issue = "string \<times> string"

datatype js_error =
    Error string
  | SyntaxError string
  | ZodError "zod_issue list"
  | Thrown

section \<open>Structured-output extractor\<close>

text \<open>
  \<open>JSON.parse\<close> is the engine's: it is a parameter \<open>jp\<close>, which returns the parsed value
  or the message of the \<open>SyntaxError\<close> it throws.
\<close>

definition JSON_parse :: "(string \<Rightarrow> string + json) \<Rightarrow> string \<Rightarrow> js_error + json" where
  "JSON_parse jp s = (case jp s of Inl m \<Rightarrow> Inl (SyntaxError m) | Inr v \<Rightarrow> Inr v)"

definition fence :: string where
  "fence = ''```''"

fun lazy_until_fence :: "string \<Rightarrow> (string \<times> string) option" where
  "lazy_until_fence [] = None"
| "lazy_until_fence (c # cs) =
     (if prefix fence (c # cs) then Some ([], drop 3 (c # cs))
      else map_option (\<lambda>(b, r). (c # b, r)) (lazy_until_fence cs))"

definition after_tag :: "string \<Rightarrow> string list" where
  "after_tag s = (if toLowerCase (take 4 s) = ''json'' then [drop 4 s] else []) @ [s]"

definition ws_backtrack :: "string \<Rightarrow> string list" where
  "ws_backtrack s = map (\<lambda>k. drop k s) (rev [0..<Suc (length (takeWhile is_ws s))])"

fun first_some :: "('a \<Rightarrow> 'b option) \<Rightarrow> 'a list \<Rightarrow> 'b option" where
  "first_some f [] = None"
| "first_some f (x # xs) = (case f x of Some y \<Rightarrow> Some y | None \<Rightarrow> first_some f xs)"

definition match_fence_at :: "string \<Rightarrow> (string \<times> string) option" where
  "match_fence_at s =
     (if prefix fence s
      then first_some lazy_until_fence (concat (map ws_backtrack (after_tag (drop 3 s))))
      else None)"

lemma lazy_until_fence_shorter:
  "lazy_until_fence s = Some (b, r) \<Longrightarrow> length r < length s"
  by (induction s arbitrary: b r) (auto split: if_splits)

lemma first_some_SomeD:
  "first_some f xs = Some y \<Longrightarrow> \<exists>x \<in> set xs. f x = Some y"
  by (induction xs) (auto split: option.splits)

lemma match_fence_at_shorter:
  assumes "match_fence_at s = Some (b, r)"
  shows "length r < length s"
proof -
  from assms obtain a where a: "a \<in> set (concat (map ws_backtrack (after_tag (drop 3 s))))"
    and l: "lazy_until_fence a = Some (b, r)"
    by (auto simp: match_fence_at_def split: if_splits dest!: first_some_SomeD)
  from a have "length a \<le> length s"
    by (auto simp: ws_backtrack_def after_tag_def split: if_splits)
  with lazy_until_fence_shorter [OF l] show ?thesis by simp
qed

function fence_captures :: "string \<Rightarrow> string list" where
  "fence_captures [] = []"
| "fence_captures (c # cs) =
     (case match_fence_at (c # cs) of
        Some (cap, rest) \<Rightarrow> cap # fence_captures rest
      | None \<Rightarrow> fence_captures cs)"
  by pat_completeness auto
termination
  by (relation "measure length") (auto dest: match_fence_at_shorter)

fun try_candidates :: "(string \<Rightarrow> string + json) \<Rightarrow> string list \<Rightarrow> json option" where
  "try_candidates jp [] = None"
| "try_candidates jp (m # ms) =
     (let candidate = trim m
      in if candidate = [] then try_candidates jp ms
         else (case JSON_parse jp candidate of
                 Inr v \<Rightarrow> Some v
               | Inl e \<Rightarrow> try_candidates jp ms))"

definition parseJsonCandidate :: "(string \<Rightarrow> string + json) \<Rightarrow> string \<Rightarrow> js_error + json" where
  "parseJsonCandidate jp content =
     (let trimmed = trim content
      in case JSON_parse jp trimmed of
           Inr v \<Rightarrow> Inr v
         | Inl e \<Rightarrow>
             (case try_candidates jp (fence_captures trimmed) of
                Some v \<Rightarrow> Inr v
              | None \<Rightarrow>
                  (let firstBrace = indexOf trimmed CHR ''{'';
                       lastBrace = lastIndexOf trimmed CHR ''}''
                   in if firstBrace \<noteq> - 1 \<and> lastBrace \<noteq> - 1 \<and> lastBrace > firstBrace
                      then JSON_parse jp (slice trimmed firstBrace (lastBrace + 1))
                      else Inl (Error ''Copilot did not return parseable JSON.''))))"

section \<open>The extractor as the specification words it\<close>

text \<open>
  For comparison with \<open>parseJsonCandidate\<close>: the ordered strategies of the specification.
  A fenced block starts at a triple backtick, optionally followed by \<open>json\<close> in any case,
  and white space; its inner content runs to the next triple backtick; the scan goes on after
  the closing fence (after the first character when the fence is never closed).
  \<open>spec_strategies\<close> lists the outcome of each strategy in order, \<open>spec_extract\<close> takes the
  first that gave a value.
\<close>

definition skip_tag :: "string \<Rightarrow> string" where
  "skip_tag s = (if toLowerCase (take 4 s) = ''json'' then drop 4 s else s)"

function fenced_blocks :: "string \<Rightarrow> string list" where
  "fenced_blocks [] = []"
| "fenced_blocks (c # cs) =
     (if prefix fence (c # cs)
      then (case lazy_until_fence (dropWhile is_ws (skip_tag (drop 3 (c # cs)))) of
              Some (body, rest) \<Rightarrow> body # fenced_blocks rest
            | None \<Rightarrow> fenced_blocks cs)
      else fenced_blocks cs)"
  by pat_completeness auto
termination
proof (relation "measure length")
  show "wf (measure length)" by simp
next
  fix c :: char and cs x2 x y
  assume "prefix fence (c # cs)"
    and l: "lazy_until_fence (dropWhile is_ws (skip_tag (drop 3 (c # cs)))) = Some x2"
    and x: "(x, y) = x2"
  from l x have "length y < length (dropWhile is_ws (skip_tag (drop 3 (c # cs))))"
    by (auto dest: lazy_until_fence_shorter)
  also have "\<dots> \<le> length (skip_tag (drop 3 (c # cs)))"
    by (rule length_dropWhile_le)
  also have "\<dots> \<le> length (c # cs)"
    by (auto simp: skip_tag_def)
  finally show "(y, c # cs) \<in> measure length" by simp
qed simp_all

definition parse_opt :: "(string \<Rightarrow> string + json) \<Rightarrow> string \<Rightarrow> json option" where
  "parse_opt jp s = (case jp s of Inl m \<Rightarrow> None | Inr v \<Rightarrow> Some v)"

definition brace_slice :: "string \<Rightarrow> string option" where
  "brace_slice t =
     (if CHR ''{'' \<in> set t \<and> CHR ''}'' \<in> set t \<and> indexOf t CHR ''{'' < lastIndexOf t CHR ''}''
      then Some (slice t (indexOf t CHR ''{'') (lastIndexOf t CHR ''}'' + 1))
      else None)"

definition spec_strategies :: "(string \<Rightarrow> string + json) \<Rightarrow> string \<Rightarrow> json option list" where
  "spec_strategies jp text =
     (let t = trim text
      in [parse_opt jp t]
         @ map (\<lambda>block. parse_opt jp (trim block)) (fenced_blocks t)
         @ [case brace_slice t of None \<Rightarrow> None | Some s \<Rightarrow> parse_opt jp s])"

definition spec_extract :: "(string \<Rightarrow> string + json) \<Rightarrow> string \<Rightarrow> json option" where
  "spec_extract jp text = first_some (\<lambda>r. r) (spec_strategies jp text)"

definition is_parse_error :: "js_error \<Rightarrow> bool" where
  "is_parse_error e =
     (case e of
        SyntaxError m \<Rightarrow> True
      | Error m \<Rightarrow> m = ''Copilot did not return parseable JSON.''
      | _ \<Rightarrow> False)"

section \<open>Schemas\<close>

text \<open>
  The two \<open>zod\<close> schemas, as parsers of a JSON value. A schema reports every issue of
  every field, in the order of its shape; \<open>zod_ap\<close> collects them. A key that is absent
  takes the field's default or, without one, is an issue; unknown keys are dropped. An issue
  is the failing field and its code.
\<close>

fun zod_ap :: "(zod_issue list + ('a \<Rightarrow> 'b)) \<Rightarrow> (zod_issue list + 'a) \<Rightarrow> (zod_issue list + 'b)" where
  "zod_ap (Inr f) (Inr x) = Inr (f x)"
| "zod_ap (Inl i) (Inr x) = Inl i"
| "zod_ap (Inr f) (Inl j) = Inl j"
| "zod_ap (Inl i) (Inl j) = Inl (i @ j)"

definition zod_checks :: "zod_issue list \<Rightarrow> 'a \<Rightarrow> zod_issue list + 'a" where
  "zod_checks issues v = (if issues = [] then Inr v else Inl issues)"

definition z_string :: "string \<Rightarrow> nat \<Rightarrow> nat option \<Rightarrow> json \<Rightarrow> zod_issue list + string" where
  "z_string path lo hi v =
     (case v of
        JStr s \<Rightarrow>
          zod_checks
            ((if length s < lo then [(path, ''too_small'')] else []) @
             (case hi of None \<Rightarrow> [] | Some h \<Rightarrow> if h < length s then [(path, ''too_big'')] else []))
            s
      | _ \<Rightarrow> Inl [(path, ''invalid_type'')])"

definition z_trimmed_string :: "string \<Rightarrow> nat \<Rightarrow> nat option \<Rightarrow> json \<Rightarrow> zod_issue list + string" where
  "z_trimmed_string path lo hi v =
     (case v of JStr s \<Rightarrow> z_string path lo hi (JStr (trim s)) | _ \<Rightarrow> Inl [(path, ''invalid_type'')])"

definition z_int :: "string \<Rightarrow> int \<Rightarrow> int \<Rightarrow> json \<Rightarrow> zod_issue list + int" where
  "z_int path lo hi v =
     (case v of
        JNum r \<Rightarrow>
          zod_checks
            ((if frac r \<noteq> 0 then [(path, ''invalid_type'')] else []) @
             (if r < of_int lo then [(path, ''too_small'')] else []) @
             (if of_int hi < r then [(path, ''too_big'')] else []))
            \<lfloor>r\<rfloor>
      | _ \<Rightarrow> Inl [(path, ''invalid_type'')])"

definition z_record :: "string \<Rightarrow> json \<Rightarrow> zod_issue list + (string \<times> json) list" where
  "z_record path v = (case v of JObj kvs \<Rightarrow> Inr kvs | _ \<Rightarrow> Inl [(path, ''invalid_type'')])"

definition z_default :: "'a \<Rightarrow> (json \<Rightarrow> zod_issue list + 'a) \<Rightarrow> json option \<Rightarrow> zod_issue list + 'a" where
  "z_default d inner v = (case v of None \<Rightarrow> Inr d | Some x \<Rightarrow> inner x)"

definition z_required :: "string \<Rightarrow> (json \<Rightarrow> zod_issue list + 'a) \<Rightarrow> json option \<Rightarrow> zod_issue list + 'a" where
  "z_required path inner v = (case v of None \<Rightarrow> Inl [(path, ''invalid_type'')] | Some x \<Rightarrow> inner x)"

definition zod_result :: "zod_issue list + 'a \<Rightarrow> js_error + 'a" where
  "zod_result r = (case r of Inl issues \<Rightarrow> Inl (ZodError issues) | Inr v \<Rightarrow> Inr v)"

definition generatedVideoSchema_parse :: "json \<Rightarrow> js_error + GeneratedVideoSpec" where
  "generatedVideoSchema_parse data =
     (case data of
        JObj kvs \<Rightarrow>
          zod_result
            (zod_ap (zod_ap (zod_ap (zod_ap (zod_ap (zod_ap (zod_ap
               (Inr (\<lambda>t w h f d p c.
                   \<lparr>title = t, width = w, height = h, fps = f, durationInFrames = d,
                    inputProps = p, componentCode = c\<rparr>))
               (z_default ''Generated Remotion Video'' (z_string ''title'' 1 (Some 120))
                  (map_of kvs ''title'')))
               (z_default 1280 (z_int ''width'' 320 3840) (map_of kvs ''width'')))
               (z_default 720 (z_int ''height'' 240 2160) (map_of kvs ''height'')))
               (z_default 30 (z_int ''fps'' 12 60) (map_of kvs ''fps'')))
               (z_default 300 (z_int ''durationInFrames'' 45 1800) (map_of kvs ''durationInFrames'')))
               (z_default [] (z_record ''inputProps'') (map_of kvs ''inputProps'')))
               (z_required ''componentCode'' (z_string ''componentCode'' 40 None)
                  (map_of kvs ''componentCode'')))
      | _ \<Rightarrow> Inl (ZodError [([], ''invalid_type'')]))"

definition styleBriefDraftSchema_parse :: "json \<Rightarrow> js_error + (string \<times> string)" where
  "styleBriefDraftSchema_parse data =
     (case data of
        JObj kvs \<Rightarrow>
          zod_result
            (zod_ap (zod_ap (Inr (\<lambda>n b. (n, b)))
               (z_required ''styleName'' (z_trimmed_string ''styleName'' 1 (Some 80))
                  (map_of kvs ''styleName'')))
               (z_required ''styleBrief'' (z_trimmed_string ''styleBrief'' 20 (Some 800))
                  (map_of kvs ''styleBrief'')))
      | _ \<Rightarrow> Inl (ZodError [([], ''invalid_type'')]))"


text \<open>The declared ranges of the numeric fields of \<open>generatedVideoSchema\<close>.\<close>

definition numeric_bounds :: "(string \<times> int \<times> int) list" where
  "numeric_bounds =
     [(''width'', 320, 3840), (''height'', 240, 2160), (''fps'', 12, 60),
      (''durationInFrames'', 45, 1800)]"

definition issues_of :: "zod_issue list + 'a \<Rightarrow> zod_issue list" where
  "issues_of r = (case r of Inl issues \<Rightarrow> issues | Inr v \<Rightarrow> [])"

section \<open>Style briefs\<close>

text \<open>
  \<open>parseStyleBriefs\<close>. \<open>resolve_name\<close> is its \<open>while\<close> loop, \<open>normalize_styles\<close> its
  \<open>forEach\<close> with the two accumulators \<open>normalized\<close> and \<open>usedStyleNames\<close> (a \<open>Set\<close>, kept
  as the list of its elements in insertion order). The loop ends because the candidates
  \<open>baseName (2)\<close>, \<open>baseName (3)\<close>, ... are pairwise different and the set is finite.
\<close>

record GeneratedStyleBrief =
  variantId :: string
  styleName :: string
  styleBrief :: string

definition is_digit :: "char \<Rightarrow> bool" where
  "is_digit c = (c \<in> set ''0123456789'')"

definition suffixed :: "string \<Rightarrow> nat \<Rightarrow> string" where
  "suffixed baseName n = baseName @ '' ('' @ show_nat n @ '')''"

lemma digit_char_inj: "a < 10 \<Longrightarrow> b < 10 \<Longrightarrow> digit_char a = digit_char b \<Longrightarrow> a = b"
proof -
  assume a: "a < 10" and b: "b < 10" and e: "digit_char a = digit_char b"
  have d: "distinct ''0123456789''" by simp
  have "(''0123456789'' ! a = ''0123456789'' ! b) = (a = b)"
    by (rule nth_eq_iff_index_eq [OF d]) (use a b in simp_all)
  with e show ?thesis by (simp add: digit_char_def)
qed

lemma digit_char_is_digit: "d < 10 \<Longrightarrow> is_digit (digit_char d)"
  unfolding is_digit_def digit_char_def by (rule nth_mem) simp

lemma show_nat_not_Nil: "show_nat n \<noteq> []"
  by (subst show_nat.simps) simp

lemma show_nat_digits: "c \<in> set (show_nat n) \<Longrightarrow> is_digit c"
proof (induction n rule: show_nat.induct)
  case (1 n)
  show ?case
  proof (cases "n < 10")
    case True
    with "1.prems" show ?thesis
      by (subst (asm) show_nat.simps) (simp add: digit_char_is_digit)
  next
    case False
    with "1.prems" have "c \<in> set (show_nat (n div 10)) \<or> c = digit_char (n mod 10)"
      by (subst (asm) show_nat.simps) auto
    with False "1.IH" show ?thesis
      by (auto simp: digit_char_is_digit)
  qed
qed

lemma show_nat_inj: "show_nat n = show_nat m \<Longrightarrow> n = m"
proof (induction n arbitrary: m rule: show_nat.induct)
  case (1 n)
  show ?case
  proof (cases "n < 10")
    case n: True
    show ?thesis
    proof (cases "m < 10")
      case True
      with n "1.prems" show ?thesis
        by (simp add: show_nat.simps [of n] show_nat.simps [of m] digit_char_inj)
    next
      case False
      with n "1.prems" show ?thesis
        using show_nat_not_Nil [of "m div 10"]
        by (simp add: show_nat.simps [of n] show_nat.simps [of m])
    qed
  next
    case n: False
    show ?thesis
    proof (cases "m < 10")
      case True
      with n "1.prems" show ?thesis
        using show_nat_not_Nil [of "n div 10"]
        by (simp add: show_nat.simps [of n] show_nat.simps [of m])
    next
      case False
      with n "1.prems" have e: "show_nat (n div 10) = show_nat (m div 10)"
        and d: "digit_char (n mod 10) = digit_char (m mod 10)"
        by (simp_all add: show_nat.simps [of n] show_nat.simps [of m])
      from "1.IH" [OF n e] have q: "n div 10 = m div 10" .
      from d have r: "n mod 10 = m mod 10" by (auto intro: digit_char_inj)
      from q r show ?thesis by (metis div_mult_mod_eq)
    qed
  qed
qed

lemma lower_char_digit: "is_digit c \<Longrightarrow> lower_char c = c"
proof -
  have "\<forall>c \<in> set ''0123456789''. lower_char c = c"
    by (simp add: lower_char_def upper_chars_def lower_chars_def)
  then show "is_digit c \<Longrightarrow> lower_char c = c"
    unfolding is_digit_def by blast
qed

lemma toLowerCase_show_nat: "toLowerCase (show_nat n) = show_nat n"
  unfolding toLowerCase_def by (rule map_idI) (simp add: lower_char_digit show_nat_digits)

lemma toLowerCase_suffixed_inj:
  "toLowerCase (suffixed b k) = toLowerCase (suffixed b k') \<Longrightarrow> k = k'"
proof -
  assume "toLowerCase (suffixed b k) = toLowerCase (suffixed b k')"
  then have "toLowerCase (show_nat k) @ toLowerCase '')'' = toLowerCase (show_nat k') @ toLowerCase '')''"
    by (simp add: suffixed_def toLowerCase_def)
  then have "show_nat k = show_nat k'"
    by (simp add: toLowerCase_show_nat)
  then show ?thesis by (rule show_nat_inj)
qed

lemma finite_taken_suffixes: "finite {k. toLowerCase (suffixed b k) \<in> set used}"
proof -
  have "inj (\<lambda>k. toLowerCase (suffixed b k))"
    by (rule injI) (rule toLowerCase_suffixed_inj)
  then have "finite ((\<lambda>k. toLowerCase (suffixed b k)) -` set used)"
    by (intro finite_vimageI) simp_all
  then show ?thesis by (simp add: vimage_def)
qed

definition taken_from :: "string list \<Rightarrow> string \<Rightarrow> nat \<Rightarrow> nat set" where
  "taken_from used b n = {k. n \<le> k \<and> toLowerCase (suffixed b k) \<in> set used}"

lemma finite_taken_from: "finite (taken_from used b n)"
  unfolding taken_from_def by (rule finite_subset [OF _ finite_taken_suffixes [of b used]]) auto

lemma taken_from_Suc:
  "taken_from used b n =
     (if toLowerCase (suffixed b n) \<in> set used then insert n (taken_from used b (Suc n))
      else taken_from used b (Suc n))"
  unfolding taken_from_def by (auto simp: le_Suc_eq Suc_le_eq) (metis le_neq_implies_less)+

function resolve_name :: "string list \<Rightarrow> string \<Rightarrow> string \<Rightarrow> nat \<Rightarrow> string" where
  "resolve_name used baseName resolvedName sfx =
     (if toLowerCase resolvedName \<in> set used
      then resolve_name used baseName (suffixed baseName sfx) (sfx + 1)
      else resolvedName)"
  by pat_completeness auto
termination
proof (relation "measure (\<lambda>(used, b, r, n).
    2 * card (taken_from used b n) + (if toLowerCase r \<in> set used then 1 else 0))")
  show "wf (measure (\<lambda>(used, b, r, n).
    2 * card (taken_from used b n) + (if toLowerCase r \<in> set used then 1 else 0)))" by simp
next
  fix used :: "string list" and baseName resolvedName :: string and sfx :: nat
  assume "toLowerCase resolvedName \<in> set used"
  moreover have "n \<notin> taken_from used b (Suc n)" for b n
    by (simp add: taken_from_def)
  ultimately show "((used, baseName, suffixed baseName sfx, sfx + 1),
      (used, baseName, resolvedName, sfx)) \<in> measure (\<lambda>(used, b, r, n).
    2 * card (taken_from used b n) + (if toLowerCase r \<in> set used then 1 else 0))"
    by (simp add: taken_from_Suc [of used baseName sfx] finite_taken_from)
qed

declare resolve_name.simps [simp del]

definition Set_add :: "string list \<Rightarrow> string \<Rightarrow> string list" where
  "Set_add used x = (if x \<in> set used then used else used @ [x])"

fun normalize_styles ::
  "json list \<Rightarrow> nat \<Rightarrow> GeneratedStyleBrief list \<Rightarrow> string list \<Rightarrow> js_error + GeneratedStyleBrief list"
where
  "normalize_styles [] index normalized usedStyleNames = Inr normalized"
| "normalize_styles (item # items) index normalized usedStyleNames =
     (case styleBriefDraftSchema_parse item of
        Inl e \<Rightarrow> Inl e
      | Inr (name, brief) \<Rightarrow>
          (let baseName = str_or (trim name) (''Style '' @ show_nat (index + 1));
               resolvedName = resolve_name usedStyleNames baseName baseName 2
           in normalize_styles items (index + 1)
                (normalized @
                   [\<lparr>variantId = ''style-'' @ show_nat (index + 1), styleName = resolvedName,
                     styleBrief = brief\<rparr>])
                (Set_add usedStyleNames (toLowerCase resolvedName))))"

definition raw_styles :: "json \<Rightarrow> json list option" where
  "raw_styles parsed =
     (case parsed of
        JArr xs \<Rightarrow> Some xs
      | JObj kvs \<Rightarrow> (case map_of kvs ''styles'' of Some (JArr xs) \<Rightarrow> Some xs | _ \<Rightarrow> None)
      | _ \<Rightarrow> None)"

definition parseStyleBriefs ::
  "(string \<Rightarrow> string + json) \<Rightarrow> string \<Rightarrow> nat \<Rightarrow> js_error + GeneratedStyleBrief list" where
  \<open>parseStyleBriefs jp content count =
     (case parseJsonCandidate jp content of
        Inl e \<Rightarrow> Inl e
      | Inr parsed \<Rightarrow>
          (case raw_styles parsed of
             None \<Rightarrow> Inl (Error ''Copilot did not return a valid "styles" array.'')
           | Some rawStyles \<Rightarrow>
               if length rawStyles \<noteq> count
               then Inl (Error (''Expected exactly '' @ show_nat count @ '' styles but received ''
                                 @ show_nat (length rawStyles) @ ''.''))
               else normalize_styles rawStyles 0 [] []))\<close>

section \<open>Spec normalizer\<close>

definition Math_ceil :: "rat \<Rightarrow> int" where
  "Math_ceil x = \<lceil>x\<rceil>"

definition normalizeSpec :: "GeneratedVideoSpec \<Rightarrow> GeneratedVideoSpec" where
  "normalizeSpec spec =
     (let normalizedFps = max 12 (min 60 (num_or (fps spec) (fps fallbackSpec)));
          minSeconds = 6;
          normalizedDuration =
            max (max 45 (min 1800 (num_or (durationInFrames spec) (durationInFrames fallbackSpec))))
                (Math_ceil (of_int normalizedFps * minSeconds))
      in \<lparr>title = str_or (title spec) (title fallbackSpec),
          width = max 320 (min 3840 (num_or (width spec) (width fallbackSpec))),
          height = max 240 (min 2160 (num_or (height spec) (height fallbackSpec))),
          fps = normalizedFps,
          durationInFrames = normalizedDuration,
          inputProps = inputProps spec,
          componentCode = componentCode spec\<rparr>)"

section \<open>Collaborators\<close>

text \<open>
  What the pipeline calls and does not implement, as one record of parameters:
  \<open>JSON.parse\<close>; the environment variable \<open>COPILOT_MODEL\<close>; the Copilot session of
  \<open>runCopilotPrompt\<close> (client start, session, \<open>sendAndWait\<close>, reading the content, clean-up),
  which yields the assistant's content or throws; the message texts \<open>zod\<close> gives a
  \<open>ZodError\<close> and one issue; \<open>process.cwd()\<close>; and the file writes, bundling and rendering
  of one render job, which complete (\<open>None\<close>) or throw.
\<close>

record RenderJob =
  jobsDir :: string
  entryPoint :: string
  rootFile :: string
  componentFile :: string
  outputLocation :: string
  composition :: GeneratedVideoSpec

record services =
  json_parse :: "string \<Rightarrow> string + json"
  COPILOT_MODEL :: "string option"
  copilot_session :: "string \<Rightarrow> string \<Rightarrow> js_error + string"
  zod_message :: "zod_issue list \<Rightarrow> string"
  zod_issue_message :: "zod_issue \<Rightarrow> string"
  cwd :: string
  remotion :: "RenderJob \<Rightarrow> js_error option"

definition truthy :: "string option \<Rightarrow> bool" where
  "truthy v = (case v of None \<Rightarrow> False | Some s \<Rightarrow> s \<noteq> [])"

definition error_message :: "services \<Rightarrow> string \<Rightarrow> js_error \<Rightarrow> string" where
  "error_message sv unknown e =
     (case e of
        Error m \<Rightarrow> m
      | SyntaxError m \<Rightarrow> m
      | ZodError issues \<Rightarrow> zod_message sv issues
      | Thrown \<Rightarrow> unknown)"

definition opt_or :: "string option \<Rightarrow> string \<Rightarrow> string" where
  "opt_or v d = (case v of None \<Rightarrow> d | Some s \<Rightarrow> str_or s d)"

definition getResolvedModel :: "services \<Rightarrow> string option \<Rightarrow> string" where
  "getResolvedModel sv model = opt_or model (opt_or (COPILOT_MODEL sv) ''gpt-5'')"

definition runCopilotPrompt :: "services \<Rightarrow> string \<Rightarrow> string option \<Rightarrow> js_error + string" where
  "runCopilotPrompt sv prompt model =
     (case copilot_session sv (getResolvedModel sv model) prompt of
        Inl e \<Rightarrow> Inl e
      | Inr content \<Rightarrow>
          if content = [] then Inl (Error ''Copilot did not return any content.'')
          else Inr content)"

section \<open>Prompts\<close>

fun join_with :: "string \<Rightarrow> string list \<Rightarrow> string" where
  "join_with sep [] = []"
| "join_with sep [x] = x"
| "join_with sep (x # y # ys) = x @ sep @ join_with sep (y # ys)"

definition buildStyleBriefGenerationPrompt :: "string \<Rightarrow> nat \<Rightarrow> bool \<Rightarrow> string" where
  "buildStyleBriefGenerationPrompt userPrompt count hasUploadedImage =
     join_with [CHR 0x0A]
       ([''You are a creative director for Remotion video concepts.'',
         ''Return ONLY one JSON object with a single key: styles.'',
         ''styles must be an array with exactly '' @ show_nat count @ '' objects.'',
         ''Each styles item must contain exactly these keys:'',
         ''styleName, styleBrief'',
         '''',
         ''Rules:'',
         ''- styleName must be short and descriptive.'',
         ''- styleBrief must be a concrete production direction with motion, tone, typography, and transitions.'',
         ''- All styles must be clearly distinct from each other.'',
         ''- Keep all styles aligned to the user prompt intent.'',
         ''- Do not include markdown fences or extra keys.'',
         ''''] @
        (if hasUploadedImage
         then [''Uploaded image note:'',
               ''- The final video variants will receive inputProps.imageDataUrl.'',
               ''- Include at least one sentence in each styleBrief on how to feature the uploaded image.'',
               '''']
         else []) @
        [''User prompt:'', userPrompt])"

definition buildSpecGenerationPrompt :: "string \<Rightarrow> GeneratedStyleBrief \<Rightarrow> bool \<Rightarrow> string" where
  "buildSpecGenerationPrompt userPrompt style hasUploadedImage =
     join_with [CHR 0x0A]
       ([''You are a Remotion video generator.'',
         ''Return ONLY one JSON object with exactly these keys:'',
         ''title, width, height, fps, durationInFrames, inputProps, componentCode'',
         '''',
         ''Rules:'',
         ''- componentCode must be valid TSX.'',
         ''- componentCode must default export a React component named GeneratedVideo.'',
         ''- Use only imports from react and remotion.'',
         ''- Do not use external URLs, file system APIs, or third-party packages.'',
         ''- Keep it visual, animated, and aligned to the user prompt.'',
         ''- Ensure syntax is valid and ready to compile.'',
         ''- durationInFrames should match the content timing and be between 6 and 12 seconds.'',
         ''- Keep visible motion throughout the full clip (no long static freeze).'',
         ''- Use inline styles only.'',
         ''- Do not wrap in markdown code fences.'',
         ''''] @
        [''Creative direction for this variant:'',
         ''- Style name: '' @ styleName style,
         ''- Style brief: '' @ styleBrief style,
         ''''] @
        (if hasUploadedImage
         then [''Uploaded image requirements:'',
               ''- An uploaded image is available in inputProps.imageDataUrl (data URL).'',
               ''- The component must read imageDataUrl from props and render it visibly in the video.'',
               ''- Use Img from remotion or an img element with src={imageDataUrl}.'',
               ''- Keep the image on screen long enough to be clearly visible.'',
               ''- Do not add extra thumbnail/watermark-style overlays unless explicitly requested.'',
               '''']
         else []) @
        [''User prompt:'', userPrompt])"

section \<open>Style brief and video spec generation\<close>

definition generateStyleBriefsWithCopilot ::
  "services \<Rightarrow> string \<Rightarrow> string option \<Rightarrow> string option \<Rightarrow> nat \<Rightarrow> js_error + GeneratedStyleBrief list"
where
  "generateStyleBriefsWithCopilot sv prompt model imageDataUrl count =
     (case runCopilotPrompt sv
             (buildStyleBriefGenerationPrompt prompt count (truthy imageDataUrl)) model of
        Inl e \<Rightarrow> Inl e
      | Inr rawContent \<Rightarrow> parseStyleBriefs (json_parse sv) rawContent count)"

definition missing_default_export :: "string \<Rightarrow> string" where
  \<open>missing_default_export name =
     ''Generated component code is missing a default export for "'' @ name @ ''".''\<close>

definition with_image :: "string option \<Rightarrow> (string \<times> json) list \<Rightarrow> (string \<times> json) list" where
  "with_image imageDataUrl props =
     (case imageDataUrl of
        None \<Rightarrow> props
      | Some url \<Rightarrow> if url = [] then props else AList.update ''imageDataUrl'' (JStr url) props)"

definition generateVideoSpecForStyle ::
  "services \<Rightarrow> string \<Rightarrow> string option \<Rightarrow> string option \<Rightarrow> GeneratedStyleBrief
     \<Rightarrow> js_error + (GeneratedVideoSpec \<times> string)"
where
  "generateVideoSpecForStyle sv prompt model imageDataUrl style =
     (case runCopilotPrompt sv
             (buildSpecGenerationPrompt prompt style (truthy imageDataUrl)) model of
        Inl e \<Rightarrow> Inl e
      | Inr rawContent \<Rightarrow>
          (case parseJsonCandidate (json_parse sv) rawContent of
             Inl e \<Rightarrow> Inl e
           | Inr parsed \<Rightarrow>
               (case generatedVideoSchema_parse parsed of
                  Inl e \<Rightarrow> Inl e
                | Inr validated \<Rightarrow>
                    (let parsedSpec = normalizeSpec validated;
                         spec = parsedSpec
                           \<lparr>inputProps := with_image imageDataUrl (inputProps parsedSpec)\<rparr>
                     in if \<not> str_includes (componentCode spec) ''export default''
                        then Inl (Error (missing_default_export (styleName style)))
                        else Inr (spec, rawContent)))))"

datatype VideoSpecGenerationResult =
    SpecSucceeded GeneratedStyleBrief GeneratedVideoSpec string
  | SpecFailed GeneratedStyleBrief string

fun result_style :: "VideoSpecGenerationResult \<Rightarrow> GeneratedStyleBrief" where
  "result_style (SpecSucceeded style spec rawContent) = style"
| "result_style (SpecFailed style err) = style"

fun Promise_all :: "(js_error + 'a) list \<Rightarrow> js_error + 'a list" where
  "Promise_all [] = Inr []"
| "Promise_all (p # ps) =
     (case p of
        Inl e \<Rightarrow> Inl e
      | Inr x \<Rightarrow> (case Promise_all ps of Inl e \<Rightarrow> Inl e | Inr xs \<Rightarrow> Inr (x # xs)))"

text \<open>
  The callback of \<open>styles.map\<close> returns from its \<open>try\<close> and from its \<open>catch\<close>:
  \<open>spec_attempt\<close> is the value its promise is fulfilled with.
\<close>

definition spec_attempt ::
  "services \<Rightarrow> string \<Rightarrow> string option \<Rightarrow> string option \<Rightarrow> GeneratedStyleBrief
     \<Rightarrow> VideoSpecGenerationResult"
where
  "spec_attempt sv prompt model imageDataUrl style =
     (case generateVideoSpecForStyle sv prompt model imageDataUrl style of
        Inr (spec, rawContent) \<Rightarrow> SpecSucceeded style spec rawContent
      | Inl e \<Rightarrow> SpecFailed style (error_message sv ''Unknown error'' e))"

definition generateVideoSpecsForStyles ::
  "services \<Rightarrow> string \<Rightarrow> string option \<Rightarrow> string option \<Rightarrow> GeneratedStyleBrief list
     \<Rightarrow> js_error + VideoSpecGenerationResult list"
where
  "generateVideoSpecsForStyles sv prompt model imageDataUrl styles =
     Promise_all (map (\<lambda>style. Inr (spec_attempt sv prompt model imageDataUrl style)) styles)"

section \<open>Render invoker\<close>

record RenderVariantInput =
  requestId :: string
  in_variantId :: string
  in_styleName :: string
  spec :: GeneratedVideoSpec

record Metadata =
  meta_title :: string
  meta_width :: int
  meta_height :: int
  meta_fps :: int
  meta_durationInFrames :: int

record RenderVariantSuccess =
  ok_variantId :: string
  ok_styleName :: string
  jobId :: string
  videoUrl :: string
  outputPath :: string
  metadata :: Metadata

datatype RenderVariantResult =
    RenderSucceeded RenderVariantSuccess
  | RenderFailed string string string

fun render_variantId :: "RenderVariantResult \<Rightarrow> string" where
  "render_variantId (RenderSucceeded r) = ok_variantId r"
| "render_variantId (RenderFailed vid name err) = vid"

fun render_styleName :: "RenderVariantResult \<Rightarrow> string" where
  "render_styleName (RenderSucceeded r) = ok_styleName r"
| "render_styleName (RenderFailed vid name err) = name"

definition is_slug_char :: "char \<Rightarrow> bool" where
  "is_slug_char c = (c \<in> set ''abcdefghijklmnopqrstuvwxyz0123456789'')"

function collapse_runs :: "string \<Rightarrow> string" where
  "collapse_runs [] = []"
| "collapse_runs (c # cs) =
     (if is_slug_char c then c # collapse_runs cs
      else CHR ''-'' # collapse_runs (dropWhile (\<lambda>x. \<not> is_slug_char x) cs))"
  by pat_completeness auto
termination
  by (relation "measure length") (auto simp: le_imp_less_Suc length_dropWhile_le)

definition strip_hyphens :: "string \<Rightarrow> string" where
  "strip_hyphens s =
     rev (dropWhile (\<lambda>x. x = CHR ''-'') (rev (dropWhile (\<lambda>x. x = CHR ''-'') s)))"

definition toSlug :: "string \<Rightarrow> string" where
  "toSlug v = str_or (strip_hyphens (collapse_runs (toLowerCase v))) ''style''"

text \<open>\<open>path.join\<close> and \<open>path.normalize\<close> of Node (POSIX).\<close>

fun split_on :: "char \<Rightarrow> string \<Rightarrow> string list" where
  "split_on d [] = [[]]"
| "split_on d (c # cs) =
     (if c = d then [] # split_on d cs
      else (case split_on d cs of [] \<Rightarrow> [[c]] | seg # segs \<Rightarrow> (c # seg) # segs))"

definition normalize_step :: "bool \<Rightarrow> string list \<Rightarrow> string \<Rightarrow> string list" where
  "normalize_step allowAboveRoot res seg =
     (if seg = [] \<or> seg = ''.'' then res
      else if seg = ''..''
      then (if res \<noteq> [] \<and> last res \<noteq> ''..'' then butlast res
            else if allowAboveRoot then res @ [''..'']
            else res)
      else res @ [seg])"

definition normalizeString :: "string \<Rightarrow> bool \<Rightarrow> string" where
  "normalizeString p allowAboveRoot =
     join_with ''/'' (foldl (normalize_step allowAboveRoot) [] (split_on CHR ''/'' p))"

definition path_normalize :: "string \<Rightarrow> string" where
  "path_normalize p =
     (if p = [] then ''.''
      else
        (let isAbsolute = (hd p = CHR ''/'');
             trailingSeparator = (last p = CHR ''/'');
             q = normalizeString p (\<not> isAbsolute)
         in if q = [] then (if isAbsolute then ''/'' else if trailingSeparator then ''./'' else ''.'')
            else (if isAbsolute then ''/'' else []) @ q @ (if trailingSeparator then ''/'' else [])))"

definition path_join :: "string list \<Rightarrow> string" where
  "path_join args =
     (let joined = join_with ''/'' (filter (\<lambda>arg. arg \<noteq> []) args)
      in if joined = [] then ''.'' else path_normalize joined)"

definition render_job :: "services \<Rightarrow> RenderVariantInput \<Rightarrow> RenderJob" where
  "render_job sv input =
     (let slug = toSlug (in_styleName input);
          job = requestId input @ ''-'' @ in_variantId input @ ''-'' @ slug;
          dir = path_join [cwd sv, ''.generated'', ''jobs'', requestId input, in_variantId input]
      in \<lparr>jobsDir = dir,
          entryPoint = path_join [dir, ''index.ts''],
          rootFile = path_join [dir, ''Root.tsx''],
          componentFile = path_join [dir, ''GeneratedVideo.tsx''],
          outputLocation = path_join [cwd sv, ''public'', ''renders'', job @ ''.mp4''],
          composition = spec input\<rparr>)"

definition renderRemotionVideoVariant ::
  "services \<Rightarrow> RenderVariantInput \<Rightarrow> js_error + RenderVariantSuccess" where
  "renderRemotionVideoVariant sv input =
     (let slug = toSlug (in_styleName input);
          job = requestId input @ ''-'' @ in_variantId input @ ''-'' @ slug
      in case remotion sv (render_job sv input) of
           Some e \<Rightarrow> Inl e
         | None \<Rightarrow>
             Inr \<lparr>ok_variantId = in_variantId input,
                  ok_styleName = in_styleName input,
                  jobId = job,
                  videoUrl = ''/renders/'' @ job @ ''.mp4'',
                  outputPath = outputLocation (render_job sv input),
                  metadata =
                    \<lparr>meta_title = title (spec input), meta_width = width (spec input),
                     meta_height = height (spec input), meta_fps = fps (spec input),
                     meta_durationInFrames = durationInFrames (spec input)\<rparr>\<rparr>)"

definition render_attempt :: "services \<Rightarrow> RenderVariantInput \<Rightarrow> RenderVariantResult" where
  "render_attempt sv variant =
     (case renderRemotionVideoVariant sv variant of
        Inr r \<Rightarrow> RenderSucceeded r
      | Inl e \<Rightarrow>
          RenderFailed (in_variantId variant) (in_styleName variant)
            (error_message sv ''Unknown render error'' e))"

definition renderRemotionVideoVariants ::
  "services \<Rightarrow> RenderVariantInput list \<Rightarrow> js_error + RenderVariantResult list" where
  "renderRemotionVideoVariants sv variants =
     Promise_all (map (\<lambda>variant. Inr (render_attempt sv variant)) variants)"

section \<open>Identifiers and path segments\<close>

text \<open>
  The shape of a request id (\<open>randomUUID()\<close>: hexadecimal digits and hyphens, 8-4-4-4-12)
  and of a variant id (\<open>style-\<close> and decimal digits). A plain segment is an argument that
  \<open>path.join\<close> keeps as one path component. \<open>joined_args\<close>, \<open>join_absolute\<close> and
  \<open>join_stack\<close> name what \<open>path.join\<close> computes from its leading arguments.
\<close>

definition is_hex :: "char \<Rightarrow> bool" where
  "is_hex c = (c \<in> set ''0123456789abcdef'')"

definition uuid_pattern :: string where
  "uuid_pattern = ''xxxxxxxx-xxxx-xxxx-xxxx-xxxxxxxxxxxx''"

definition is_uuid :: "string \<Rightarrow> bool" where
  "is_uuid s =
     list_all2 (\<lambda>p c. if p = CHR ''-'' then c = CHR ''-'' else is_hex c) uuid_pattern s"

definition is_variant_id :: "string \<Rightarrow> bool" where
  "is_variant_id v = (prefix ''style-'' v \<and> drop 6 v \<noteq> [] \<and> list_all is_digit (drop 6 v))"

definition plain_segment :: "string \<Rightarrow> bool" where
  "plain_segment x = (x \<noteq> [] \<and> CHR ''/'' \<notin> set x \<and> x \<noteq> ''.'' \<and> x \<noteq> ''..'')"

definition joined_args :: "string list \<Rightarrow> string" where
  "joined_args args = join_with ''/'' (filter (\<lambda>arg. arg \<noteq> []) args)"

definition join_absolute :: "string list \<Rightarrow> bool" where
  "join_absolute args = (joined_args args \<noteq> [] \<and> hd (joined_args args) = CHR ''/'')"

definition join_stack :: "string list \<Rightarrow> string list" where
  "join_stack args =
     foldl (normalize_step (\<not> join_absolute args)) [] (split_on CHR ''/'' (joined_args args))"

section \<open>Orchestrator\<close>

text \<open>
  The \<open>POST\<close> handler. \<open>POST_try\<close> is its \<open>try\<close> block and \<open>POST\<close> adds the
  \<open>catch\<close>; \<open>body\<close> is the outcome of \<open>request.json()\<close>. The step log and the stack
  trace of the response are left out. A \<open>VariantResponse\<close> holds its \<open>variantId\<close>,
  \<open>styleName\<close> and \<open>styleBrief\<close> as one record of these three fields.
\<close>

record GenerateRequest =
  req_prompt :: string
  req_model :: "string option"
  req_variantCount :: "nat option"
  req_imageDataUrl :: "string option"

definition z_optional ::
  "(json \<Rightarrow> zod_issue list + 'a) \<Rightarrow> json option \<Rightarrow> zod_issue list + 'a option" where
  "z_optional inner v =
     (case v of
        None \<Rightarrow> Inr None
      | Some x \<Rightarrow> (case inner x of Inl issues \<Rightarrow> Inl issues | Inr y \<Rightarrow> Inr (Some y)))"

definition z_variantCount :: "json \<Rightarrow> zod_issue list + nat" where
  "z_variantCount v =
     (case v of
        JNum r \<Rightarrow>
          if r = 1 then Inr 1 else if r = 4 then Inr 4
          else Inl [(''variantCount'', ''invalid_union'')]
      | _ \<Rightarrow> Inl [(''variantCount'', ''invalid_union'')])"

definition is_image_data_url :: "string \<Rightarrow> bool" where
  "is_image_data_url v =
     list_ex (\<lambda>fmt. prefix (''data:image/'' @ fmt @ '';base64,'') (toLowerCase v))
       [''png'', ''jpeg'', ''jpg'', ''webp'', ''gif'']"

definition z_imageDataUrl :: "json option \<Rightarrow> zod_issue list + string option" where
  "z_imageDataUrl v =
     (case v of
        None \<Rightarrow> Inr None
      | Some JNull \<Rightarrow> Inr None
      | Some (JStr s) \<Rightarrow>
          (case zod_checks
                  ((if 10000000 < length s then [(''imageDataUrl'', ''too_big'')] else []) @
                   (if \<not> is_image_data_url s then [(''imageDataUrl'', ''custom'')] else []))
                  s of
             Inl issues \<Rightarrow> Inl issues
           | Inr u \<Rightarrow> Inr (Some u))
      | Some _ \<Rightarrow> Inl [(''imageDataUrl'', ''invalid_union'')])"

definition requestSchema_parse :: "json \<Rightarrow> js_error + GenerateRequest" where
  "requestSchema_parse data =
     (case data of
        JObj kvs \<Rightarrow>
          zod_result
            (zod_ap (zod_ap (zod_ap (zod_ap
               (Inr (\<lambda>p m c i.
                   \<lparr>req_prompt = p, req_model = m, req_variantCount = c, req_imageDataUrl = i\<rparr>))
               (z_required ''prompt'' (z_trimmed_string ''prompt'' 10 (Some 2000))
                  (map_of kvs ''prompt'')))
               (z_optional (z_trimmed_string ''model'' 1 (Some 100)) (map_of kvs ''model'')))
               (z_optional z_variantCount (map_of kvs ''variantCount'')))
               (z_imageDataUrl (map_of kvs ''imageDataUrl'')))
      | _ \<Rightarrow> Inl (ZodError [([], ''invalid_type'')]))"

datatype VariantResponse =
    VariantSucceeded GeneratedStyleBrief string string Metadata
  | VariantFailed GeneratedStyleBrief string

fun is_succeeded :: "VariantResponse \<Rightarrow> bool" where
  "is_succeeded (VariantSucceeded b job url md) = True"
| "is_succeeded (VariantFailed b err) = False"

fun variant_brief :: "VariantResponse \<Rightarrow> GeneratedStyleBrief" where
  "variant_brief (VariantSucceeded b job url md) = b"
| "variant_brief (VariantFailed b err) = b"

record Response =
  status :: nat
  ok :: bool
  res_requestId :: string
  res_error :: "string option"
  res_jobId :: "string option"
  res_videoUrl :: "string option"
  res_metadata :: "Metadata option"
  variants :: "VariantResponse list option"

definition Map_new :: "('k \<times> 'v) list \<Rightarrow> ('k \<rightharpoonup> 'v)" where
  "Map_new entries = foldl (\<lambda>m (k, v). m(k \<mapsto> v)) Map.empty entries"

fun render_input_of :: "string \<Rightarrow> VideoSpecGenerationResult \<Rightarrow> RenderVariantInput option" where
  "render_input_of rid (SpecSucceeded style sp rawContent) =
     Some \<lparr>requestId = rid, in_variantId = variantId style, in_styleName = styleName style,
           spec = sp\<rparr>"
| "render_input_of rid (SpecFailed style err) = None"

definition variant_response ::
  "(string \<rightharpoonup> VideoSpecGenerationResult) \<Rightarrow> (string \<rightharpoonup> RenderVariantResult)
     \<Rightarrow> GeneratedStyleBrief \<Rightarrow> VariantResponse"
where
  "variant_response specResultByVariantId renderResultByVariantId b =
     (let head = \<lparr>variantId = variantId b, styleName = styleName b, styleBrief = styleBrief b\<rparr>
      in case specResultByVariantId (variantId b) of
           None \<Rightarrow> VariantFailed head ''Video spec generation did not return a result.''
         | Some (SpecFailed style err) \<Rightarrow> VariantFailed head err
         | Some (SpecSucceeded style sp rawContent) \<Rightarrow>
             (case renderResultByVariantId (variantId b) of
                None \<Rightarrow> VariantFailed head ''Render did not complete for this style.''
              | Some (RenderFailed vid name err) \<Rightarrow>
                  VariantFailed head (str_or err ''Render did not complete for this style.'')
              | Some (RenderSucceeded r) \<Rightarrow>
                  VariantSucceeded head (jobId r) (videoUrl r) (metadata r)))"

definition respond :: "string \<Rightarrow> VariantResponse list \<Rightarrow> Response" where
  "respond rid vs =
     (case filter is_succeeded vs of
        VariantSucceeded b job url md # rest \<Rightarrow>
          \<lparr>status = 200, ok = True, res_requestId = rid, res_error = None,
           res_jobId = Some job, res_videoUrl = Some url, res_metadata = Some md,
           variants = Some vs\<rparr>
      | _ \<Rightarrow>
          \<lparr>status = 500, ok = False, res_requestId = rid,
           res_error = Some ''All style variants failed to render.'',
           res_jobId = None, res_videoUrl = None, res_metadata = None,
           variants = Some vs\<rparr>)"

definition POST_try :: "services \<Rightarrow> string \<Rightarrow> js_error + json \<Rightarrow> js_error + Response" where
  "POST_try sv rid body =
     (case body of
        Inl e \<Rightarrow> Inl e
      | Inr data \<Rightarrow>
     (case requestSchema_parse data of
        Inl e \<Rightarrow> Inl e
      | Inr req \<Rightarrow>
     (let normalizedImageDataUrl = req_imageDataUrl req;
          resolvedVariantCount = (case req_variantCount req of None \<Rightarrow> 1 | Some n \<Rightarrow> n)
      in case generateStyleBriefsWithCopilot sv (req_prompt req) (req_model req)
                normalizedImageDataUrl resolvedVariantCount of
           Inl e \<Rightarrow> Inl e
         | Inr styleBriefs \<Rightarrow>
     (case generateVideoSpecsForStyles sv (req_prompt req) (req_model req)
             normalizedImageDataUrl styleBriefs of
        Inl e \<Rightarrow> Inl e
      | Inr specResults \<Rightarrow>
     (let renderInputs = List.map_filter (render_input_of rid) specResults
      in case renderRemotionVideoVariants sv renderInputs of
           Inl e \<Rightarrow> Inl e
         | Inr renderResults \<Rightarrow>
             (let renderResultByVariantId =
                    Map_new (map (\<lambda>result. (render_variantId result, result)) renderResults);
                  specResultByVariantId =
                    Map_new (map (\<lambda>result. (variantId (result_style result), result)) specResults)
              in Inr (respond rid
                        (map (variant_response specResultByVariantId renderResultByVariantId)
                           styleBriefs))))))))"

definition POST :: "services \<Rightarrow> string \<Rightarrow> js_error + json \<Rightarrow> Response" where
  "POST sv rid body =
     (case POST_try sv rid body of
        Inr response \<Rightarrow> response
      | Inl (ZodError issues) \<Rightarrow>
          \<lparr>status = 400, ok = False, res_requestId = rid,
           res_error =
             Some (str_or (case issues of [] \<Rightarrow> [] | issue # rest \<Rightarrow> zod_issue_message sv issue)
                     ''Invalid request payload.''),
           res_jobId = None, res_videoUrl = None, res_metadata = None, variants = None\<rparr>
      | Inl e \<Rightarrow>
          \<lparr>status = 500, ok = False, res_requestId = rid,
           res_error = Some (error_message sv ''Unknown error'' e),
           res_jobId = None, res_videoUrl = None, res_metadata = None, variants = None\<rparr>)"

section \<open>Example collaborators\<close>

text \<open>
  Concrete collaborators on which the theorems below are instantiated: a \<open>JSON.parse\<close>
  that knows a few texts, a model that answers with a given text, an engine that renders.
\<close>

definition example_component :: string where
  "example_component = ''export default function GeneratedVideo() { return null; }''"

definition example_brief :: "string \<Rightarrow> json" where
  "example_brief name =
     JObj [(''styleName'', JStr name), (''styleBrief'', JStr ''Fast cuts, heavy type, hard contrast.'')]"

definition example_spec :: "rat \<Rightarrow> string \<Rightarrow> json" where
  "example_spec f code =
     JObj [(''title'', JStr ''Demo''), (''fps'', JNum f),
           (''inputProps'', JObj [(''imageDataUrl'', JStr ''x''), (''accent'', JStr ''orange'')]),
           (''componentCode'', JStr code)]"

definition spec_text :: "string \<Rightarrow> string \<Rightarrow> string" where
  \<open>spec_text f code =
     ''{"title":"Demo","fps":'' @ f @
     '',"inputProps":{"imageDataUrl":"x","accent":"orange"},"componentCode":"'' @ code @ ''"}''\<close>

definition styles_text :: string where
  \<open>styles_text =
     ''[{"styleName":"Bold","styleBrief":"Fast cuts, heavy type, hard contrast."},'' @
     ''{"styleName":"bold","styleBrief":"Fast cuts, heavy type, hard contrast."},'' @
     ''{"styleName":"Bold","styleBrief":"Fast cuts, heavy type, hard contrast."}]''\<close>

definition named_export :: string where
  "named_export = ''export const GeneratedVideo = () => { return null; };''"

definition fenced_text :: string where
  \<open>fenced_text =
     ''Here it is: ```json'' @ [CHR 0x0A] @ ''{"a":1}'' @ [CHR 0x0A] @ ''``` as asked.''\<close>

definition example_texts :: "(string \<times> json) list" where
  \<open>example_texts =
     [(''{"a":1}'', JObj [(''a'', JNum 1)]),
      (styles_text, JArr [example_brief ''Bold'', example_brief ''bold'', example_brief ''Bold'']),
      (spec_text ''24'' example_component, example_spec 24 example_component),
      (spec_text ''60'' example_component, example_spec 60 example_component),
      (spec_text ''100'' example_component, example_spec 100 example_component),
      (spec_text ''24'' named_export, example_spec 24 named_export)]\<close>

definition example_parse :: "string \<Rightarrow> string + json" where
  "example_parse s = (case map_of example_texts s of Some v \<Rightarrow> Inr v | None \<Rightarrow> Inl ''Unexpected token'')"

definition constant_answer :: "string \<Rightarrow> string \<Rightarrow> string" where
  "constant_answer text prompt = text"

definition engine_ok :: "RenderJob \<Rightarrow> js_error option" where
  "engine_ok job = None"

definition example_services :: "(string \<Rightarrow> string) \<Rightarrow> (RenderJob \<Rightarrow> js_error option) \<Rightarrow> services" where
  "example_services answer engine =
     \<lparr>json_parse = example_parse, COPILOT_MODEL = None,
      copilot_session = (\<lambda>model prompt. Inr (answer prompt)),
      zod_message = (\<lambda>issues. ''Invalid model output.''),
      zod_issue_message = (\<lambda>issue. ''Invalid input.''),
      cwd = ''/app'', remotion = engine\<rparr>"

definition example_style :: GeneratedStyleBrief where
  "example_style =
     \<lparr>variantId = ''style-1'', styleName = ''Bold'',
      styleBrief = ''Fast cuts, heavy type, hard contrast.''\<rparr>"

definition example_input :: RenderVariantInput where
  "example_input =
     \<lparr>requestId = ''0b0e7a52-4c1d-4f6a-9d3e-5a1f2c3b4d5e'', in_variantId = ''style-1'',
      in_styleName = ''Bold'', spec = fallbackSpec\<rparr>"

definition example_input2 :: RenderVariantInput where
  "example_input2 =
     \<lparr>requestId = ''0b0e7a52-4c1d-4f6a-9d3e-5a1f2c3b4d5e'', in_variantId = ''style-2'',
      in_styleName = ''Bold'', spec = fallbackSpec\<rparr>"

section \<open>Properties of the normalizer\<close>

lemma Math_ceil_frames: "Math_ceil (of_int n * 6) = n * 6"
proof -
  have "(of_int n :: rat) * 6 = of_int (n * 6)" by simp
  then show ?thesis unfolding Math_ceil_def by (simp only: ceiling_of_int)
qed

lemma normalizeSpec_fps: "fps (normalizeSpec s) = max 12 (min 60 (num_or (fps s) 30))"
  by (simp add: normalizeSpec_def fallbackSpec_def Let_def)

lemma normalizeSpec_duration:
  "durationInFrames (normalizeSpec s) =
     max (max 45 (min 1800 (num_or (durationInFrames s) 300))) (fps (normalizeSpec s) * 6)"
  by (simp add: normalizeSpec_def fallbackSpec_def Let_def Math_ceil_frames)

lemma normalizeSpec_width: "width (normalizeSpec s) = max 320 (min 3840 (num_or (width s) 1280))"
  by (simp add: normalizeSpec_def fallbackSpec_def Let_def)

lemma normalizeSpec_height: "height (normalizeSpec s) = max 240 (min 2160 (num_or (height s) 720))"
  by (simp add: normalizeSpec_def fallbackSpec_def Let_def)

lemma normalizeSpec_rest:
  "title (normalizeSpec s) = str_or (title s) ''Generated Remotion Video''"
  "inputProps (normalizeSpec s) = inputProps s"
  "componentCode (normalizeSpec s) = componentCode s"
  by (simp_all add: normalizeSpec_def fallbackSpec_def Let_def)

text \<open>
  C4. Whatever the input, the normalized spec has fps in [12,60], width in [320,3840],
  height in [240,2160], durationInFrames in [45,1800], and durationInFrames is at least
  ceil(fps' * 6) for the normalized fps': it is the larger of the clamped declared duration
  and the six-second floor.
\<close>

theorem normalizeSpec_bounds:
  "12 \<le> fps (normalizeSpec s) \<and> fps (normalizeSpec s) \<le> 60
   \<and> 320 \<le> width (normalizeSpec s) \<and> width (normalizeSpec s) \<le> 3840
   \<and> 240 \<le> height (normalizeSpec s) \<and> height (normalizeSpec s) \<le> 2160
   \<and> 45 \<le> durationInFrames (normalizeSpec s) \<and> durationInFrames (normalizeSpec s) \<le> 1800
   \<and> Math_ceil (of_int (fps (normalizeSpec s)) * 6) \<le> durationInFrames (normalizeSpec s)
   \<and> durationInFrames (normalizeSpec s) =
       max (max 45 (min 1800 (num_or (durationInFrames s) (durationInFrames fallbackSpec))))
           (Math_ceil (of_int (fps (normalizeSpec s)) * 6))"
proof -
  have f: "12 \<le> fps (normalizeSpec s)" "fps (normalizeSpec s) \<le> 60"
    by (simp_all add: normalizeSpec_fps)
  have d: "durationInFrames (normalizeSpec s) =
      max (max 45 (min 1800 (num_or (durationInFrames s) 300))) (fps (normalizeSpec s) * 6)"
    by (rule normalizeSpec_duration)
  have w: "320 \<le> width (normalizeSpec s)" "width (normalizeSpec s) \<le> 3840"
    by (simp_all add: normalizeSpec_width)
  have h: "240 \<le> height (normalizeSpec s)" "height (normalizeSpec s) \<le> 2160"
    by (simp_all add: normalizeSpec_height)
  have d1: "45 \<le> durationInFrames (normalizeSpec s)" using d by linarith
  have d2: "durationInFrames (normalizeSpec s) \<le> 1800" using d f by linarith
  have d3: "fps (normalizeSpec s) * 6 \<le> durationInFrames (normalizeSpec s)" using d by linarith
  have fb: "durationInFrames fallbackSpec = 300" by (simp add: fallbackSpec_def)
  show ?thesis
    unfolding Math_ceil_frames fb using f w h d d1 d2 d3 by blast
qed

text \<open>
  C5. Normalizing an already normalized spec changes nothing.
\<close>

theorem normalizeSpec_idempotent: "normalizeSpec (normalizeSpec s) = normalizeSpec s"
proof -
  let ?n = "normalizeSpec s"
  have f: "12 \<le> fps ?n" "fps ?n \<le> 60" by (simp_all add: normalizeSpec_fps)
  have w: "320 \<le> width ?n" "width ?n \<le> 3840" by (simp_all add: normalizeSpec_width)
  have h: "240 \<le> height ?n" "height ?n \<le> 2160" by (simp_all add: normalizeSpec_height)
  have d: "durationInFrames ?n =
      max (max 45 (min 1800 (num_or (durationInFrames s) 300))) (fps ?n * 6)"
    by (rule normalizeSpec_duration)
  have f': "fps (normalizeSpec ?n) = fps ?n"
    using f by (simp add: normalizeSpec_fps [of ?n] num_or_def)
  have w': "width (normalizeSpec ?n) = width ?n"
    using w by (simp add: normalizeSpec_width [of ?n] num_or_def)
  have h': "height (normalizeSpec ?n) = height ?n"
    using h by (simp add: normalizeSpec_height [of ?n] num_or_def)
  have d1: "45 \<le> durationInFrames ?n" using d by linarith
  have d2: "durationInFrames ?n \<le> 1800" using d f by linarith
  have d3: "fps ?n * 6 \<le> durationInFrames ?n" using d by linarith
  have d': "durationInFrames (normalizeSpec ?n) = durationInFrames ?n"
    using d1 d2 d3 by (simp add: normalizeSpec_duration [of ?n] f' num_or_def)
  have t': "title (normalizeSpec ?n) = title ?n"
    by (simp add: normalizeSpec_rest str_or_def)
  have r': "inputProps (normalizeSpec ?n) = inputProps ?n"
    "componentCode (normalizeSpec ?n) = componentCode ?n"
    by (simp_all add: normalizeSpec_rest)
  show ?thesis
    by (rule GeneratedVideoSpec.equality) (simp_all add: f' w' h' d' t' r')
qed

section \<open>Properties of the batch combinators\<close>

lemma Promise_all_settled: "Promise_all (map (\<lambda>x. Inr (f x)) xs) = Inr (map f xs)"
  by (induction xs) simp_all

lemma generateVideoSpecsForStyles_eq:
  "generateVideoSpecsForStyles sv prompt model img styles =
     Inr (map (spec_attempt sv prompt model img) styles)"
  unfolding generateVideoSpecsForStyles_def by (rule Promise_all_settled)

lemma result_style_spec_attempt [simp]:
  "result_style (spec_attempt sv prompt model img style) = style"
  by (simp add: spec_attempt_def split: sum.splits)

lemma renderRemotionVideoVariants_eq:
  "renderRemotionVideoVariants sv inputs = Inr (map (render_attempt sv) inputs)"
  unfolding renderRemotionVideoVariants_def by (rule Promise_all_settled)

lemma render_attempt_ids [simp]:
  "render_variantId (render_attempt sv variant) = in_variantId variant"
  "render_styleName (render_attempt sv variant) = in_styleName variant"
  by (auto simp: render_attempt_def renderRemotionVideoVariant_def Let_def
      split: sum.splits option.splits)

lemma Map_new_foldl:
  "foldl (\<lambda>m (k, v). m(k \<mapsto> v)) m0 es = m0 ++ map_of (rev es)"
  by (induction es arbitrary: m0) (auto simp: map_add_upd_left fun_eq_iff map_add_def split: option.splits)

lemma Map_new_map_of: "Map_new es = map_of (rev es)"
  by (simp add: Map_new_def Map_new_foldl)

lemma dom_Map_new: "dom (Map_new es) = fst ` set es"
  by (simp add: Map_new_map_of dom_map_of_conv_image_fst)

lemma Map_new_distinct:
  "distinct (map fst es) \<Longrightarrow> (k, v) \<in> set es \<Longrightarrow> Map_new es k = Some v"
  by (simp add: Map_new_map_of distinct_rev rev_map [symmetric])

text \<open>
  C10. Both batch combinators return (they never reject), with one result per input, in
  input order: the i-th spec result carries the i-th style, the i-th render result carries
  the \<open>variantId\<close> and \<open>styleName\<close> of the i-th input. So the orchestrator's look-up by
  \<open>variantId\<close> finds an entry for every brief and for every render input.
\<close>

theorem batch_results_positional:
  "(\<exists>rs. generateVideoSpecsForStyles sv prompt model img styles = Inr rs
        \<and> length rs = length styles
        \<and> map result_style rs = styles
        \<and> (\<forall>b \<in> set styles.
              Map_new (map (\<lambda>result. (variantId (result_style result), result)) rs) (variantId b)
                \<noteq> None))
   \<and> (\<exists>rs. renderRemotionVideoVariants sv inputs = Inr rs
        \<and> length rs = length inputs
        \<and> map render_variantId rs = map in_variantId inputs
        \<and> map render_styleName rs = map in_styleName inputs
        \<and> (\<forall>i \<in> set inputs.
              Map_new (map (\<lambda>result. (render_variantId result, result)) rs) (in_variantId i)
                \<noteq> None))"
proof (intro conjI)
  let ?rs = "map (spec_attempt sv prompt model img) styles"
  have "\<forall>b \<in> set styles.
          variantId b \<in> dom (Map_new (map (\<lambda>result. (variantId (result_style result), result)) ?rs))"
    by (simp add: dom_Map_new image_image)
  then show "\<exists>rs. generateVideoSpecsForStyles sv prompt model img styles = Inr rs
        \<and> length rs = length styles
        \<and> map result_style rs = styles
        \<and> (\<forall>b \<in> set styles.
              Map_new (map (\<lambda>result. (variantId (result_style result), result)) rs) (variantId b)
                \<noteq> None)"
    by (intro exI [of _ ?rs]) (auto simp: generateVideoSpecsForStyles_eq o_def)
next
  let ?rs = "map (render_attempt sv) inputs"
  have "\<forall>i \<in> set inputs.
          in_variantId i \<in> dom (Map_new (map (\<lambda>result. (render_variantId result, result)) ?rs))"
    by (simp add: dom_Map_new image_image)
  then show "\<exists>rs. renderRemotionVideoVariants sv inputs = Inr rs
        \<and> length rs = length inputs
        \<and> map render_variantId rs = map in_variantId inputs
        \<and> map render_styleName rs = map in_styleName inputs
        \<and> (\<forall>i \<in> set inputs.
              Map_new (map (\<lambda>result. (render_variantId result, result)) rs) (in_variantId i)
                \<noteq> None)"
    by (intro exI [of _ ?rs]) (auto simp: renderRemotionVideoVariants_eq o_def)
qed

theorem batch_results_positional_witness:
  "example_style \<in> set [example_style] \<and> example_input \<in> set [example_input]
   \<and> (\<exists>rs. generateVideoSpecsForStyles
              (example_services (constant_answer (spec_text ''24'' named_export)) engine_ok)
              ''A short film'' None None [example_style] = Inr rs
          \<and> map result_style rs = [example_style]
          \<and> Map_new (map (\<lambda>result. (variantId (result_style result), result)) rs)
                (variantId example_style) \<noteq> None)
   \<and> (\<exists>rs. renderRemotionVideoVariants
              (example_services (constant_answer (spec_text ''24'' named_export)) engine_ok)
              [example_input] = Inr rs
          \<and> map render_variantId rs = [''style-1'']
          \<and> Map_new (map (\<lambda>result. (render_variantId result, result)) rs)
                (in_variantId example_input) \<noteq> None)"
  using batch_results_positional
    [of "example_services (constant_answer (spec_text ''24'' named_export)) engine_ok"
        "''A short film''" None None "[example_style]" "[example_input]"]
  by (auto simp: example_input_def)

section \<open>Properties of spec generation\<close>

lemma str_includes_append: "str_includes (a @ s @ b) s"
proof (induction a)
  case Nil
  show ?case
  proof (cases "s @ b")
    case Nil
    then show ?thesis by simp
  next
    case (Cons c cs)
    have "prefix s (s @ b)" by simp
    with Cons show ?thesis by simp
  qed
next
  case (Cons x a)
  then show ?case by simp
qed

text \<open>
  C8. When the model's answer parses and passes \<open>generatedVideoSchema\<close> but its
  \<open>componentCode\<close> has no \<open>export default\<close>, spec generation for the style throws (the
  batch records a failed result for it), and the message contains the style's name.
\<close>

theorem default_export_required:
  assumes run: "runCopilotPrompt sv (buildSpecGenerationPrompt prompt style (truthy img)) model
                  = Inr rawContent"
    and parse: "parseJsonCandidate (json_parse sv) rawContent = Inr parsed"
    and valid: "generatedVideoSchema_parse parsed = Inr validated"
    and lacks: "\<not> str_includes (componentCode validated) ''export default''"
  shows \<open>generateVideoSpecForStyle sv prompt model img style =
           Inl (Error (''Generated component code is missing a default export for "''
                        @ styleName style @ ''".''))
         \<and> spec_attempt sv prompt model img style =
           SpecFailed style (''Generated component code is missing a default export for "''
                        @ styleName style @ ''".'')
         \<and> str_includes (''Generated component code is missing a default export for "''
                        @ styleName style @ ''".'') (styleName style)\<close>
proof -
  have g: \<open>generateVideoSpecForStyle sv prompt model img style =
           Inl (Error (''Generated component code is missing a default export for "''
                        @ styleName style @ ''".''))\<close>
    using lacks
    by (simp add: generateVideoSpecForStyle_def run parse valid Let_def normalizeSpec_rest
        missing_default_export_def)
  have a: \<open>spec_attempt sv prompt model img style =
           SpecFailed style (''Generated component code is missing a default export for "''
                        @ styleName style @ ''".'')\<close>
    by (simp add: spec_attempt_def g error_message_def)
  show ?thesis using g a str_includes_append by blast
qed

theorem default_export_required_witness:
  \<open>generateVideoSpecForStyle
      (example_services (constant_answer (spec_text ''24'' named_export)) engine_ok)
      ''A short film'' None None example_style =
    Inl (Error ''Generated component code is missing a default export for "Bold".'')\<close>
proof -
  let ?sv = "example_services (constant_answer (spec_text ''24'' named_export)) engine_ok"
  have run: "runCopilotPrompt ?sv (buildSpecGenerationPrompt ''A short film'' example_style (truthy None)) None
      = Inr (spec_text ''24'' named_export)"
    by (simp add: runCopilotPrompt_def example_services_def constant_answer_def spec_text_def)
  have parse: "parseJsonCandidate (json_parse ?sv) (spec_text ''24'' named_export)
      = Inr (example_spec 24 named_export)"
    by code_simp
  have valid: "generatedVideoSchema_parse (example_spec 24 named_export) =
      Inr \<lparr>title = ''Demo'', width = 1280, height = 720, fps = 24, durationInFrames = 300,
           inputProps = [(''imageDataUrl'', JStr ''x''), (''accent'', JStr ''orange'')],
           componentCode = named_export\<rparr>"
    by code_simp
  have lacks: "\<not> str_includes (componentCode \<lparr>title = ''Demo'', width = 1280, height = 720, fps = 24, durationInFrames = 300,
           inputProps = [(''imageDataUrl'', JStr ''x''), (''accent'', JStr ''orange'')],
           componentCode = named_export\<rparr>) ''export default''"
    by code_simp
  from default_export_required [OF run parse valid lacks]
  show ?thesis by (simp add: example_style_def)
qed

section \<open>Image attachment\<close>

lemma map_of_with_image:
  "map_of (with_image img props) =
     (case img of
        None \<Rightarrow> map_of props
      | Some url \<Rightarrow> if url = [] then map_of props else (map_of props)(''imageDataUrl'' \<mapsto> JStr url))"
  by (simp add: with_image_def AList.update_conv' split: option.splits)

text \<open>
  C9. When spec generation returns a spec, its \<open>inputProps\<close> are those of the validated
  model output with the key \<open>imageDataUrl\<close> set to the attached data URL (whatever the
  model had put there) and every other key unchanged; without an attachment (no value, or
  the empty string) they are the validated \<open>inputProps\<close> themselves. The other fields are
  those of the normalized validated spec.
\<close>

theorem image_attachment_merged:
  assumes "generateVideoSpecForStyle sv prompt model img style = Inr (sp, rawContent)"
  shows "\<exists>parsed validated.
           parseJsonCandidate (json_parse sv) rawContent = Inr parsed
         \<and> generatedVideoSchema_parse parsed = Inr validated
         \<and> (case img of
               None \<Rightarrow> inputProps sp = inputProps validated
             | Some url \<Rightarrow>
                 if url = [] then inputProps sp = inputProps validated
                 else map_of (inputProps sp) ''imageDataUrl'' = Some (JStr url)
                      \<and> (\<forall>k. k \<noteq> ''imageDataUrl'' \<longrightarrow>
                             map_of (inputProps sp) k = map_of (inputProps validated) k))
         \<and> sp\<lparr>inputProps := inputProps validated\<rparr> = normalizeSpec validated"
proof -
  from assms obtain parsed validated where
    run: "runCopilotPrompt sv (buildSpecGenerationPrompt prompt style (truthy img)) model = Inr rawContent"
    and parse: "parseJsonCandidate (json_parse sv) rawContent = Inr parsed"
    and valid: "generatedVideoSchema_parse parsed = Inr validated"
    and sp: "sp = (normalizeSpec validated)
                   \<lparr>inputProps := with_image img (inputProps (normalizeSpec validated))\<rparr>"
    by (auto simp: generateVideoSpecForStyle_def Let_def split: sum.splits if_splits)
  have props: "inputProps sp = with_image img (inputProps validated)"
    by (simp add: sp normalizeSpec_rest)
  have rest: "sp\<lparr>inputProps := inputProps validated\<rparr> = normalizeSpec validated"
    by (rule GeneratedVideoSpec.equality) (simp_all add: sp normalizeSpec_rest)
  have merged: "(case img of
               None \<Rightarrow> inputProps sp = inputProps validated
             | Some url \<Rightarrow>
                 if url = [] then inputProps sp = inputProps validated
                 else map_of (inputProps sp) ''imageDataUrl'' = Some (JStr url)
                      \<and> (\<forall>k. k \<noteq> ''imageDataUrl'' \<longrightarrow>
                             map_of (inputProps sp) k = map_of (inputProps validated) k))"
    unfolding props
    by (simp add: map_of_with_image split: option.splits) (simp add: with_image_def)
  from parse valid merged rest show ?thesis by blast
qed

theorem image_attachment_merged_witness:
  "\<exists>sp. generateVideoSpecForStyle
           (example_services (constant_answer (spec_text ''24'' example_component)) engine_ok)
           ''A short film'' None (Some ''data:image/png;base64,AAAA'') example_style
         = Inr (sp, spec_text ''24'' example_component)
       \<and> map_of (inputProps sp) ''imageDataUrl'' = Some (JStr ''data:image/png;base64,AAAA'')
       \<and> map_of (inputProps sp) ''accent'' = Some (JStr ''orange'')"
proof -
  let ?sv = "example_services (constant_answer (spec_text ''24'' example_component)) engine_ok"
  let ?sp = "\<lparr>title = ''Demo'', width = 1280, height = 720, fps = 24, durationInFrames = 300,
           inputProps = [(''imageDataUrl'', JStr ''data:image/png;base64,AAAA''), (''accent'', JStr ''orange'')],
           componentCode = example_component\<rparr>"
  have g: "generateVideoSpecForStyle ?sv ''A short film'' None (Some ''data:image/png;base64,AAAA'')
             example_style = Inr (?sp, spec_text ''24'' example_component)"
    by code_simp
  have v: "generatedVideoSchema_parse (example_spec 24 example_component) =
      Inr \<lparr>title = ''Demo'', width = 1280, height = 720, fps = 24, durationInFrames = 300,
           inputProps = [(''imageDataUrl'', JStr ''x''), (''accent'', JStr ''orange'')],
           componentCode = example_component\<rparr>"
    by code_simp
  have p: "parseJsonCandidate (json_parse ?sv) (spec_text ''24'' example_component)
      = Inr (example_spec 24 example_component)"
    by code_simp
  from image_attachment_merged [OF g] p v
  have "map_of (inputProps ?sp) ''imageDataUrl'' = Some (JStr ''data:image/png;base64,AAAA'')
       \<and> map_of (inputProps ?sp) ''accent'' = Some (JStr ''orange'')"
    by auto
  with g show ?thesis by blast
qed

section \<open>Out-of-range numeric fields\<close>

lemma zod_ap_Inl_right: "zod_ap f (Inl j) = Inl (issues_of f @ j)"
  by (cases f) (simp_all add: issues_of_def)

lemma zod_ap_Inl_left: "zod_ap (Inl i) x = Inl (i @ issues_of x)"
  by (cases x) (simp_all add: issues_of_def)

lemma z_int_out_of_range:
  assumes "r < of_int lo \<or> of_int hi < r"
  shows "\<exists>issues. z_int field lo hi (JNum r) = Inl issues \<and> field \<in> fst ` set issues"
  using assms by (auto simp: z_int_def zod_checks_def)

lemma schema_rejects_out_of_range:
  assumes field: "(field, lo, hi) \<in> set numeric_bounds"
    and present: "map_of kvs field = Some (JNum r)"
    and out: "r < of_int lo \<or> of_int hi < r"
  shows "\<exists>issues. generatedVideoSchema_parse (JObj kvs) = Inl (ZodError issues)
           \<and> field \<in> fst ` set issues"
proof -
  from z_int_out_of_range [OF out] obtain issues
    where z: "z_int field lo hi (JNum r) = Inl issues" and m: "field \<in> fst ` set issues"
    by blast
  from field consider "field = ''width''" "lo = 320" "hi = 3840"
    | "field = ''height''" "lo = 240" "hi = 2160"
    | "field = ''fps''" "lo = 12" "hi = 60"
    | "field = ''durationInFrames''" "lo = 45" "hi = 1800"
    by (auto simp: numeric_bounds_def)
  then show ?thesis
  proof cases
    case 1
    with z m present show ?thesis
      by (simp add: generatedVideoSchema_parse_def z_default_def zod_ap_Inl_right zod_ap_Inl_left
          zod_result_def image_Un)
  next
    case 2
    with z m present show ?thesis
      by (simp add: generatedVideoSchema_parse_def z_default_def zod_ap_Inl_right zod_ap_Inl_left
          zod_result_def image_Un)
  next
    case 3
    with z m present show ?thesis
      by (simp add: generatedVideoSchema_parse_def z_default_def zod_ap_Inl_right zod_ap_Inl_left
          zod_result_def image_Un)
  next
    case 4
    with z m present show ?thesis
      by (simp add: generatedVideoSchema_parse_def z_default_def zod_ap_Inl_right zod_ap_Inl_left
          zod_result_def image_Un)
  qed
qed

text \<open>
  C2, as stated, fails: with \<open>fps\<close> 100 in the model's answer, spec generation for the style
  throws the \<open>ZodError\<close> of \<open>generatedVideoSchema\<close>; the same answer with \<open>fps\<close> 60 gives a
  spec.
\<close>

theorem out_of_range_rejected_counterexample:
  "generateVideoSpecForStyle
      (example_services (constant_answer (spec_text ''100'' example_component)) engine_ok)
      ''A short film'' None None example_style
     = Inl (ZodError [(''fps'', ''too_big'')])
   \<and> isl (generateVideoSpecForStyle
      (example_services (constant_answer (spec_text ''100'' example_component)) engine_ok)
      ''A short film'' None None example_style)
   \<and> \<not> isl (generateVideoSpecForStyle
      (example_services (constant_answer (spec_text ''60'' example_component)) engine_ok)
      ''A short film'' None None example_style)"
  by code_simp

text \<open>
  C2, amended. \<open>normalizeSpec\<close> is total and clamps the four numeric fields into their
  bounds, but it runs after \<open>generatedVideoSchema\<close>: a model answer in which \<open>width\<close>,
  \<open>height\<close>, \<open>fps\<close> or \<open>durationInFrames\<close> is a number outside its declared range is
  rejected with a \<open>ZodError\<close> naming the field, and spec generation for that style fails.
\<close>

theorem out_of_range_rejected:
  assumes run: "runCopilotPrompt sv (buildSpecGenerationPrompt prompt style (truthy img)) model
                  = Inr rawContent"
    and parse: "parseJsonCandidate (json_parse sv) rawContent = Inr (JObj kvs)"
    and field: "(field, lo, hi) \<in> set numeric_bounds"
    and present: "map_of kvs field = Some (JNum r)"
    and out: "r < of_int lo \<or> of_int hi < r"
  shows "(\<exists>issues. field \<in> fst ` set issues
            \<and> generateVideoSpecForStyle sv prompt model img style = Inl (ZodError issues)
            \<and> spec_attempt sv prompt model img style = SpecFailed style (zod_message sv issues))
         \<and> 12 \<le> fps (normalizeSpec s) \<and> fps (normalizeSpec s) \<le> 60
         \<and> 320 \<le> width (normalizeSpec s) \<and> width (normalizeSpec s) \<le> 3840
         \<and> 240 \<le> height (normalizeSpec s) \<and> height (normalizeSpec s) \<le> 2160
         \<and> 45 \<le> durationInFrames (normalizeSpec s) \<and> durationInFrames (normalizeSpec s) \<le> 1800"
proof -
  from schema_rejects_out_of_range [OF field present out] obtain issues
    where rej: "generatedVideoSchema_parse (JObj kvs) = Inl (ZodError issues)"
      and m: "field \<in> fst ` set issues"
    by blast
  have g: "generateVideoSpecForStyle sv prompt model img style = Inl (ZodError issues)"
    by (simp add: generateVideoSpecForStyle_def run parse rej)
  have a: "spec_attempt sv prompt model img style = SpecFailed style (zod_message sv issues)"
    by (simp add: spec_attempt_def g error_message_def)
  have f: "12 \<le> fps (normalizeSpec s)" "fps (normalizeSpec s) \<le> 60"
    by (simp_all add: normalizeSpec_fps)
  have w: "320 \<le> width (normalizeSpec s)" "width (normalizeSpec s) \<le> 3840"
    by (simp_all add: normalizeSpec_width)
  have h: "240 \<le> height (normalizeSpec s)" "height (normalizeSpec s) \<le> 2160"
    by (simp_all add: normalizeSpec_height)
  have d: "45 \<le> durationInFrames (normalizeSpec s)" "durationInFrames (normalizeSpec s) \<le> 1800"
    using f by (simp_all add: normalizeSpec_duration)
  from m g a f w h d show ?thesis by blast
qed

theorem out_of_range_rejected_witness:
  "\<exists>issues. ''fps'' \<in> fst ` set issues
     \<and> generateVideoSpecForStyle
      (example_services (constant_answer (spec_text ''100'' example_component)) engine_ok)
      ''A short film'' None None example_style = Inl (ZodError issues)"
proof -
  let ?sv = "example_services (constant_answer (spec_text ''100'' example_component)) engine_ok"
  have run: "runCopilotPrompt ?sv (buildSpecGenerationPrompt ''A short film'' example_style (truthy None)) None
      = Inr (spec_text ''100'' example_component)"
    by (simp add: runCopilotPrompt_def example_services_def constant_answer_def spec_text_def)
  have parse: "parseJsonCandidate (json_parse ?sv) (spec_text ''100'' example_component)
      = Inr (JObj [(''title'', JStr ''Demo''), (''fps'', JNum 100),
           (''inputProps'', JObj [(''imageDataUrl'', JStr ''x''), (''accent'', JStr ''orange'')]),
           (''componentCode'', JStr example_component)])"
    by code_simp
  have field: "(''fps'', 12, 60) \<in> set numeric_bounds"
    by (simp add: numeric_bounds_def)
  have present: "map_of [(''title'', JStr ''Demo''), (''fps'', JNum 100),
           (''inputProps'', JObj [(''imageDataUrl'', JStr ''x''), (''accent'', JStr ''orange'')]),
           (''componentCode'', JStr example_component)] ''fps'' = Some (JNum 100)"
    by simp
  have out: "(100::rat) < of_int 12 \<or> of_int 60 < (100::rat)" by simp
  from out_of_range_rejected [OF run parse field present out]
  show ?thesis by blast
qed

section \<open>Properties of the extractor\<close>

lemma is_ws_not_backtick: "is_ws c \<Longrightarrow> c \<noteq> CHR 0x60"
proof
  assume "is_ws c" and "c = CHR 0x60"
  then have "is_ws (CHR 0x60)" by simp
  then show False by (simp add: is_ws_def)
qed

lemma lazy_until_fence_skip:
  "c \<noteq> CHR 0x60 \<Longrightarrow>
     lazy_until_fence (c # s) = map_option (\<lambda>(b, r). (c # b, r)) (lazy_until_fence s)"
  by (simp add: fence_def)

lemma lazy_until_fence_None_skip:
  "c \<noteq> CHR 0x60 \<Longrightarrow> lazy_until_fence (c # s) = None \<longleftrightarrow> lazy_until_fence s = None"
  by (simp add: lazy_until_fence_skip del: lazy_until_fence.simps)

lemma lazy_until_fence_None_prepend:
  "\<forall>c \<in> set p. c \<noteq> CHR 0x60 \<Longrightarrow>
     lazy_until_fence (p @ s) = None \<longleftrightarrow> lazy_until_fence s = None"
  by (induction p) (simp_all add: lazy_until_fence_None_skip del: lazy_until_fence.simps)

lemma lazy_until_fence_None_drop:
  assumes "lazy_until_fence (dropWhile is_ws s) = None" and "k \<le> length (takeWhile is_ws s)"
  shows "lazy_until_fence (drop k s) = None"
proof -
  let ?w = "takeWhile is_ws s"
  have "drop k s = drop k (?w @ dropWhile is_ws s)" by simp
  also have "\<dots> = drop k ?w @ drop (k - length ?w) (dropWhile is_ws s)"
    by (rule drop_append)
  also have "\<dots> = drop k ?w @ dropWhile is_ws s"
    using assms(2) by simp
  finally have d: "drop k s = drop k ?w @ dropWhile is_ws s" .
  have "c \<noteq> CHR 0x60" if "c \<in> set (drop k ?w)" for c
  proof -
    from that have "c \<in> set ?w" by (rule in_set_dropD)
    then have "is_ws c" by (auto dest: set_takeWhileD)
    then show ?thesis by (rule is_ws_not_backtick)
  qed
  then have "\<forall>c \<in> set (drop k ?w). c \<noteq> CHR 0x60" by blast
  from lazy_until_fence_None_prepend [OF this, of "dropWhile is_ws s"] assms(1)
  show ?thesis unfolding d by blast
qed

lemma first_some_all_None: "\<forall>x \<in> set xs. f x = None \<Longrightarrow> first_some f xs = None"
  by (induction xs) simp_all

lemma first_some_append:
  "first_some f (xs @ ys) = (case first_some f xs of Some y \<Rightarrow> Some y | None \<Rightarrow> first_some f ys)"
  by (induction xs) (simp_all split: option.splits)

lemma ws_backtrack_head:
  "ws_backtrack s = dropWhile is_ws s # map (\<lambda>k. drop k s) (rev [0..<length (takeWhile is_ws s)])"
  by (simp add: ws_backtrack_def dropWhile_eq_drop)

lemma first_some_ws_backtrack:
  "first_some lazy_until_fence (ws_backtrack s) = lazy_until_fence (dropWhile is_ws s)"
proof (cases "lazy_until_fence (dropWhile is_ws s)")
  case None
  then have "\<forall>x \<in> set (ws_backtrack s). lazy_until_fence x = None"
    by (auto simp: ws_backtrack_def lazy_until_fence_None_drop simp del: lazy_until_fence.simps)
  with None show ?thesis by (simp add: first_some_all_None)
next
  case (Some a)
  then show ?thesis by (simp add: ws_backtrack_head del: lazy_until_fence.simps)
qed

lemma lower_char_fixed: "c \<notin> set upper_chars \<Longrightarrow> lower_char c = c"
proof -
  assume "c \<notin> set upper_chars"
  moreover have "length upper_chars = length lower_chars"
    by (simp add: upper_chars_def lower_chars_def)
  ultimately have "map_of (zip upper_chars lower_chars) c = None"
    by (simp add: map_of_zip_is_None)
  then show ?thesis by (simp add: lower_char_def)
qed

lemma tag_char:
  assumes "lower_char x \<in> set ''json''"
  shows "x \<noteq> CHR 0x60" and "\<not> is_ws x"
proof -
  have "\<forall>c \<in> set [CHR 0x60, CHR 0x09, CHR 0x0A, CHR 0x0B, CHR 0x0C, CHR 0x0D, CHR 0x20, CHR 0xA0].
          c \<notin> set upper_chars"
    by (simp add: upper_chars_def)
  then have "\<forall>c \<in> set [CHR 0x60, CHR 0x09, CHR 0x0A, CHR 0x0B, CHR 0x0C, CHR 0x0D, CHR 0x20, CHR 0xA0].
          lower_char c = c"
    by (simp add: lower_char_fixed)
  then have "\<forall>c \<in> set [CHR 0x60, CHR 0x09, CHR 0x0A, CHR 0x0B, CHR 0x0C, CHR 0x0D, CHR 0x20, CHR 0xA0].
          lower_char c \<notin> set ''json''"
    by simp
  with assms show "x \<noteq> CHR 0x60" and "\<not> is_ws x"
    by (auto simp: is_ws_def)
qed

lemma json_tag_split:
  assumes "toLowerCase (take 4 r) = ''json''"
  shows "\<exists>t. r = t @ drop 4 r \<and> (\<forall>c \<in> set t. c \<noteq> CHR 0x60) \<and> dropWhile is_ws r = r"
proof -
  let ?t = "take 4 r"
  have r: "r = ?t @ drop 4 r" by simp
  have m: "map lower_char ?t = ''json''" using assms by (simp add: toLowerCase_def)
  have t: "lower_char c \<in> set ''json''" if "c \<in> set ?t" for c
  proof -
    from that have "lower_char c \<in> set (map lower_char ?t)" by simp
    then show ?thesis unfolding m .
  qed
  then have nb: "\<forall>c \<in> set ?t. c \<noteq> CHR 0x60"
    using tag_char(1) by blast
  from m have "?t \<noteq> []" by auto
  then obtain a u where au: "?t = a # u" by (cases ?t) auto
  then have "a \<in> set ?t" by simp
  then have "\<not> is_ws a" using t tag_char(2) by blast
  moreover from au have "r = a # u @ drop 4 r"
    by (metis append_Cons r)
  ultimately have "dropWhile is_ws r = r"
    by (metis dropWhile.simps(2))
  with r nb show ?thesis by blast
qed

lemma match_fence_at_eq:
  assumes "prefix fence s"
  shows "match_fence_at s = lazy_until_fence (dropWhile is_ws (skip_tag (drop 3 s)))"
proof (cases "toLowerCase (take 4 (drop 3 s)) = ''json''")
  case False
  with assms show ?thesis
    by (simp add: match_fence_at_def after_tag_def skip_tag_def first_some_ws_backtrack)
next
  case True
  let ?r = "drop 3 s"
  from json_tag_split [OF True] obtain t where
    r: "?r = t @ drop 4 ?r" and nb: "\<forall>c \<in> set t. c \<noteq> CHR 0x60" and dw: "dropWhile is_ws ?r = ?r"
    by blast
  have m: "match_fence_at s =
      (case lazy_until_fence (dropWhile is_ws (drop 4 ?r)) of
         Some y \<Rightarrow> Some y
       | None \<Rightarrow> lazy_until_fence (dropWhile is_ws ?r))"
  proof -
    have "match_fence_at s =
        first_some lazy_until_fence (ws_backtrack (drop 4 ?r) @ ws_backtrack ?r)"
      using assms True by (simp add: match_fence_at_def after_tag_def)
    then show ?thesis
      by (simp only: first_some_append first_some_ws_backtrack)
  qed
  show ?thesis
  proof (cases "lazy_until_fence (dropWhile is_ws (drop 4 ?r))")
    case (Some y)
    with m True show ?thesis by (simp add: skip_tag_def)
  next
    case None
    from lazy_until_fence_None_drop [OF None, of 0] have "lazy_until_fence (drop 4 ?r) = None"
      by simp
    with lazy_until_fence_None_prepend [OF nb, of "drop 4 ?r"]
    have l: "lazy_until_fence (t @ drop 4 ?r) = None" by blast
    have "lazy_until_fence ?r = None" by (subst r) (rule l)
    with m None True dw show ?thesis by (simp add: skip_tag_def)
  qed
qed

lemma match_fence_at_no_fence: "\<not> prefix fence s \<Longrightarrow> match_fence_at s = None"
  by (simp add: match_fence_at_def)

lemma fence_captures_blocks: "fence_captures s = fenced_blocks s"
proof (induction s rule: fenced_blocks.induct)
  case 1
  show ?case by simp
next
  case (2 c cs)
  show ?case
  proof (cases "prefix fence (c # cs)")
    case False
    with 2 show ?thesis by (simp add: match_fence_at_no_fence)
  next
    case True
    show ?thesis
    proof (cases "lazy_until_fence (dropWhile is_ws (skip_tag (drop 3 (c # cs))))")
      case None
      with True 2 show ?thesis by (simp add: match_fence_at_eq del: lazy_until_fence.simps)
    next
      case (Some p)
      obtain body rest where p: "p = (body, rest)" by (cases p)
      with Some True 2 show ?thesis by (simp add: match_fence_at_eq del: lazy_until_fence.simps)
    qed
  qed
qed

lemma try_candidates_first_some:
  assumes "isl (jp [])"
  shows "try_candidates jp ms = first_some (\<lambda>r. r) (map (\<lambda>block. parse_opt jp (trim block)) ms)"
proof (induction ms)
  case Nil
  show ?case by simp
next
  case (Cons m ms)
  from assms have e: "parse_opt jp [] = None"
    by (cases "jp []") (simp_all add: parse_opt_def)
  show ?case
  proof (cases "trim m = []")
    case True
    with Cons e show ?thesis by (simp add: Let_def)
  next
    case False
    with Cons show ?thesis
      by (simp add: Let_def JSON_parse_def parse_opt_def split: sum.splits)
  qed
qed

text \<open>
  C6. \<open>parseJsonCandidate\<close> returns what the first successful strategy returns, the
  strategies being, in order: parse the trimmed text; parse the trimmed inner content of
  each fenced block, in source order; parse the slice from the first \<open>{\<close> to the last
  \<open>}\<close>. When none succeeds it throws a parse error: the \<open>SyntaxError\<close> of \<open>JSON.parse\<close> on
  the slice, or its own \<open>Error\<close> when there is no slice. (\<open>JSON.parse\<close> rejects the empty
  text; the code skips empty blocks without calling it.)
\<close>

theorem parseJsonCandidate_strategies:
  assumes "isl (jp [])"
  shows "(\<forall>v. spec_extract jp content = Some v \<longrightarrow> parseJsonCandidate jp content = Inr v)
       \<and> (spec_extract jp content = None \<longrightarrow>
            (\<exists>e. parseJsonCandidate jp content = Inl e \<and> is_parse_error e))"
proof -
  let ?t = "trim content"
  let ?blocks = "first_some (\<lambda>r. r) (map (\<lambda>block. parse_opt jp (trim block)) (fenced_blocks ?t))"
  let ?brace = "case brace_slice ?t of None \<Rightarrow> None | Some s \<Rightarrow> parse_opt jp s"
  have spec: "spec_extract jp content =
      (case parse_opt jp ?t of
         Some v \<Rightarrow> Some v
       | None \<Rightarrow> (case ?blocks of Some v \<Rightarrow> Some v | None \<Rightarrow> ?brace))"
    by (simp add: spec_extract_def spec_strategies_def Let_def first_some_append
        split: option.splits)
  have cands: "try_candidates jp (fence_captures ?t) = ?blocks"
    by (simp only: fence_captures_blocks try_candidates_first_some [where jp = jp, OF assms])
  show ?thesis
  proof (cases "jp ?t")
    case (Inr v)
    then show ?thesis
      by (simp add: spec parseJsonCandidate_def JSON_parse_def parse_opt_def Let_def)
  next
    case direct: (Inl m)
    show ?thesis
    proof (cases ?blocks)
      case (Some v)
      with direct cands show ?thesis
        by (simp add: spec parseJsonCandidate_def JSON_parse_def parse_opt_def Let_def)
    next
      case None
      show ?thesis
      proof (cases "brace_slice ?t")
        case no_slice: None
        then have "\<not> (indexOf ?t CHR ''{'' \<noteq> - 1 \<and> lastIndexOf ?t CHR ''}'' \<noteq> - 1
                     \<and> lastIndexOf ?t CHR ''}'' > indexOf ?t CHR ''{'')"
          by (auto simp: brace_slice_def indexOf_def lastIndexOf_def split: if_splits)
        with direct cands None no_slice show ?thesis
          by (auto simp: spec parseJsonCandidate_def JSON_parse_def parse_opt_def Let_def
              is_parse_error_def)
      next
        case (Some s)
        then have c: "indexOf ?t CHR ''{'' \<noteq> - 1 \<and> lastIndexOf ?t CHR ''}'' \<noteq> - 1
                     \<and> lastIndexOf ?t CHR ''}'' > indexOf ?t CHR ''{''"
          and s: "s = slice ?t (indexOf ?t CHR ''{'') (lastIndexOf ?t CHR ''}'' + 1)"
          by (auto simp: brace_slice_def indexOf_def lastIndexOf_def split: if_splits)
        show ?thesis
        proof (cases "jp s")
          case (Inl m')
          with direct cands None Some c s show ?thesis
            by (simp add: spec parseJsonCandidate_def JSON_parse_def parse_opt_def Let_def
                is_parse_error_def)
        next
          case (Inr v)
          with direct cands None Some c s show ?thesis
            by (simp add: spec parseJsonCandidate_def JSON_parse_def parse_opt_def Let_def)
        qed
      qed
    qed
  qed
qed

theorem parseJsonCandidate_strategies_witness:
  "isl (example_parse [])
   \<and> parseJsonCandidate example_parse fenced_text = Inr (JObj [(''a'', JNum 1)])
   \<and> (\<exists>e. parseJsonCandidate example_parse ''not json at all'' = Inl e \<and> is_parse_error e)"
proof -
  have h: "isl (example_parse [])" by code_simp
  have s: "spec_extract example_parse fenced_text = Some (JObj [(''a'', JNum 1)])"
    by code_simp
  have n: "spec_extract example_parse ''not json at all'' = None"
    by code_simp
  from parseJsonCandidate_strategies [where jp = example_parse, OF h, of fenced_text] s
  have 1: "parseJsonCandidate example_parse fenced_text = Inr (JObj [(''a'', JNum 1)])"
    by blast
  from parseJsonCandidate_strategies [where jp = example_parse, OF h, of "''not json at all''"] n
  have 2: "\<exists>e. parseJsonCandidate example_parse ''not json at all'' = Inl e \<and> is_parse_error e"
    by blast
  from h 1 2 show ?thesis by blast
qed

section \<open>Properties of style brief parsing\<close>

text \<open>
  C3, as stated, fails: for style names Bold, bold, Bold the second unique name is
  \<open>bold (2)\<close>, with the case of its own base name, not \<open>Bold (2)\<close>.
\<close>

theorem bold_example_counterexample:
  "map_sum id (map styleName) (parseStyleBriefs example_parse styles_text 3)
     = Inr [''Bold'', ''bold (2)'', ''Bold (3)'']
   \<and> map_sum id (map styleName) (parseStyleBriefs example_parse styles_text 3)
     \<noteq> Inr [''Bold'', ''Bold (2)'', ''Bold (3)'']"
  by code_simp

lemma resolve_bold:
  "str_or (trim ''Bold'') x = ''Bold''"
  "str_or (trim ''bold'') x = ''bold''"
  "resolve_name [] ''Bold'' ''Bold'' 2 = ''Bold''"
  "Set_add [] (toLowerCase ''Bold'') = [''bold'']"
  "resolve_name [''bold''] ''bold'' ''bold'' 2 = ''bold (2)''"
  "Set_add [''bold''] (toLowerCase ''bold (2)'') = [''bold'', ''bold (2)'']"
  "resolve_name [''bold'', ''bold (2)''] ''Bold'' ''Bold'' 2 = ''Bold (3)''"
  by code_simp+

lemma show_nat_small:
  "show_nat (Suc 0) = ''1''" "show_nat (Suc (Suc 0)) = ''2''" "show_nat (Suc (Suc (Suc 0))) = ''3''"
  "show_nat (Suc (Suc (Suc (Suc 0)))) = ''4''"
  by code_simp+

text \<open>
  C3, amended. For three otherwise valid briefs named Bold, bold, Bold (in that order) the
  unique names are \<open>Bold\<close>, \<open>bold (2)\<close>, \<open>Bold (3)\<close>: names are compared in lower case,
  each brief keeps the case of its own base name, and a collision is resolved by the first
  free suffix (2), (3), ...
\<close>

theorem bold_example:
  assumes parse: "parseJsonCandidate jp content = Inr parsed"
    and raw: "raw_styles parsed = Some [s1, s2, s3]"
    and s1: "styleBriefDraftSchema_parse s1 = Inr (''Bold'', b1)"
    and s2: "styleBriefDraftSchema_parse s2 = Inr (''bold'', b2)"
    and s3: "styleBriefDraftSchema_parse s3 = Inr (''Bold'', b3)"
  shows "parseStyleBriefs jp content 3 =
           Inr [\<lparr>variantId = ''style-1'', styleName = ''Bold'', styleBrief = b1\<rparr>,
                \<lparr>variantId = ''style-2'', styleName = ''bold (2)'', styleBrief = b2\<rparr>,
                \<lparr>variantId = ''style-3'', styleName = ''Bold (3)'', styleBrief = b3\<rparr>]"
  by (simp add: parseStyleBriefs_def parse raw s1 s2 s3 Let_def resolve_bold show_nat_small)

theorem bold_example_witness:
  "map styleName (projr (parseStyleBriefs example_parse styles_text 3))
     = [''Bold'', ''bold (2)'', ''Bold (3)'']"
proof -
  have parse: "parseJsonCandidate example_parse styles_text
      = Inr (JArr [example_brief ''Bold'', example_brief ''bold'', example_brief ''Bold''])"
    by code_simp
  have raw: "raw_styles (JArr [example_brief ''Bold'', example_brief ''bold'', example_brief ''Bold''])
      = Some [example_brief ''Bold'', example_brief ''bold'', example_brief ''Bold'']"
    by (simp add: raw_styles_def)
  have s1: "styleBriefDraftSchema_parse (example_brief ''Bold'')
      = Inr (''Bold'', ''Fast cuts, heavy type, hard contrast.'')"
    by code_simp
  have s2: "styleBriefDraftSchema_parse (example_brief ''bold'')
      = Inr (''bold'', ''Fast cuts, heavy type, hard contrast.'')"
    by code_simp
  from bold_example [OF parse raw s1 s2 s1] show ?thesis by simp
qed

section \<open>Properties of the render paths\<close>

lemma is_uuid_example: "is_uuid ''0b0e7a52-4c1d-4f6a-9d3e-5a1f2c3b4d5e''"
  by (simp add: is_uuid_def uuid_pattern_def is_hex_def)

lemma split_on_not_Nil: "split_on d s \<noteq> []"
  by (induction s) (auto split: list.splits)

lemma split_on_plain: "d \<notin> set x \<Longrightarrow> split_on d x = [x]"
  by (induction x) auto

lemma split_on_append: "split_on d (a @ d # b) = split_on d a @ split_on d b"
proof (induction a)
  case Nil
  show ?case by simp
next
  case (Cons c a)
  obtain seg segs where s: "split_on d a = seg # segs"
    using split_on_not_Nil [of d a] by (cases "split_on d a") auto
  with Cons show ?case by simp
qed

lemma join_with_snoc:
  "join_with sep (xs @ [x]) = (if xs = [] then x else join_with sep xs @ sep @ x)"
  by (induction sep xs rule: join_with.induct) auto

lemma join_with_Nil_iff: "\<forall>x \<in> set xs. x \<noteq> [] \<Longrightarrow> join_with sep xs = [] \<longleftrightarrow> xs = []"
  by (induction sep xs rule: join_with.induct) auto

lemma normalize_step_plain: "plain_segment x \<Longrightarrow> normalize_step allow res x = res @ [x]"
  by (simp add: normalize_step_def plain_segment_def)

lemma normalize_step_nonempty:
  "\<forall>x \<in> set res. x \<noteq> [] \<Longrightarrow> \<forall>x \<in> set (normalize_step allow res seg). x \<noteq> []"
  by (auto simp: normalize_step_def dest: in_set_butlastD)

lemma foldl_normalize_step_nonempty:
  "\<forall>x \<in> set res. x \<noteq> [] \<Longrightarrow> \<forall>x \<in> set (foldl (normalize_step allow) res segs). x \<noteq> []"
proof (induction segs arbitrary: res)
  case Nil
  then show ?case by simp
next
  case (Cons seg segs)
  from normalize_step_nonempty [OF Cons.prems] have "\<forall>x \<in> set (normalize_step allow res seg). x \<noteq> []" .
  from Cons.IH [OF this] show ?case by simp
qed

lemma join_stack_nonempty: "\<forall>x \<in> set (join_stack args). x \<noteq> []"
  unfolding join_stack_def by (rule foldl_normalize_step_nonempty) simp

lemma joined_args_snoc:
  "x \<noteq> [] \<Longrightarrow>
     joined_args (args @ [x]) =
       (if joined_args args = [] then x else joined_args args @ ''/'' @ x)"
proof -
  assume x: "x \<noteq> []"
  let ?f = "filter (\<lambda>arg. arg \<noteq> []) args"
  have "joined_args args = [] \<longleftrightarrow> ?f = []"
    unfolding joined_args_def by (rule join_with_Nil_iff) simp
  with x show ?thesis
    by (simp add: joined_args_def join_with_snoc)
qed

lemma join_absolute_snoc:
  "plain_segment x \<Longrightarrow> join_absolute (args @ [x]) = join_absolute args"
  by (cases "joined_args args")
     (auto simp: join_absolute_def joined_args_snoc plain_segment_def neq_Nil_conv)

lemma join_stack_snoc:
  assumes "plain_segment x"
  shows "join_stack (args @ [x]) = join_stack args @ [x]"
proof -
  from assms have x: "x \<noteq> []" and ns: "CHR ''/'' \<notin> set x" by (simp_all add: plain_segment_def)
  show ?thesis
  proof (cases "joined_args args = []")
    case True
    have e: "normalize_step allow [] [] = []" for allow
      by (simp add: normalize_step_def)
    from True assms x ns show ?thesis
      by (simp add: join_stack_def joined_args_snoc split_on_plain normalize_step_plain e)
  next
    case False
    have "split_on CHR ''/'' (joined_args args @ CHR ''/'' # x)
        = split_on CHR ''/'' (joined_args args) @ [x]"
      by (simp add: split_on_append split_on_plain ns)
    with False assms x show ?thesis
      by (simp add: join_stack_def joined_args_snoc normalize_step_plain join_absolute_snoc)
  qed
qed

lemma path_join_snoc:
  assumes "plain_segment x"
  shows "path_join (args @ [x]) =
           (if join_absolute args then ''/'' else []) @ join_with ''/'' (join_stack args @ [x])"
proof -
  let ?j = "joined_args (args @ [x])"
  from assms have x: "x \<noteq> []" and ns: "CHR ''/'' \<notin> set x" by (simp_all add: plain_segment_def)
  have j: "?j \<noteq> []" using x by (simp add: joined_args_snoc)
  have "last x \<in> set x" using x by (rule last_in_set)
  with ns have lx: "last x \<noteq> CHR ''/''" by metis
  have l: "last ?j \<noteq> CHR ''/''"
    using x lx by (simp add: joined_args_snoc)
  have h: "(hd ?j = CHR ''/'') = join_absolute args"
    using join_absolute_snoc [OF assms, of args] j by (simp add: join_absolute_def)
  have q: "normalizeString ?j (\<not> join_absolute args) = join_with ''/'' (join_stack args @ [x])"
    using join_stack_snoc [OF assms, of args] join_absolute_snoc [OF assms, of args]
    by (simp add: normalizeString_def join_stack_def)
  have ne: "join_with ''/'' (join_stack args @ [x]) \<noteq> []"
  proof -
    have "\<forall>y \<in> set (join_stack args @ [x]). y \<noteq> []"
      using join_stack_nonempty [of args] x by auto
    from join_with_Nil_iff [OF this, of "''/''"] show ?thesis by simp
  qed
  have pj: "path_join (args @ [x]) = (if ?j = [] then ''.'' else path_normalize ?j)"
    unfolding path_join_def joined_args_def [symmetric] Let_def ..
  have pn: "path_normalize ?j =
      (if join_absolute args then ''/'' else []) @ join_with ''/'' (join_stack args @ [x])"
    unfolding path_normalize_def Let_def using j l h q ne by simp
  show ?thesis
    unfolding pj pn using j by simp
qed

lemma first_separator_inj:
  "d \<notin> set y \<Longrightarrow> d \<notin> set y' \<Longrightarrow> y @ d # u = y' @ d # u' \<Longrightarrow> y = y' \<and> u = u'"
proof (induction y arbitrary: y')
  case Nil
  then show ?case by (cases y') auto
next
  case (Cons c y)
  then show ?case by (cases y') auto
qed

lemma last_separator_inj:
  assumes "d \<notin> set y" and "d \<notin> set y'" and "u @ d # y = u' @ d # y'"
  shows "u = u' \<and> y = y'"
proof -
  from assms(3) have "rev (u @ d # y) = rev (u' @ d # y')" by simp
  then have "rev y @ d # rev u = rev y' @ d # rev u'" by simp
  moreover have "d \<notin> set (rev y)" "d \<notin> set (rev y')" using assms(1,2) by simp_all
  ultimately have "rev y = rev y' \<and> rev u = rev u'" by (rule first_separator_inj [rotated 2])
  then show ?thesis by simp
qed

lemma join_last_inj:
  assumes "CHR ''/'' \<notin> set x" and "CHR ''/'' \<notin> set x'"
    and "join_with ''/'' (S @ [x]) = join_with ''/'' (S @ [x'])"
  shows "x = x'"
  using assms by (auto simp: join_with_snoc split: if_splits)

lemma join_last_two_inj:
  assumes x: "CHR ''/'' \<notin> set x" "CHR ''/'' \<notin> set x'"
    and y: "CHR ''/'' \<notin> set y" "CHR ''/'' \<notin> set y'"
    and e: "join_with ''/'' (S @ [x, y]) = join_with ''/'' (S @ [x', y'])"
  shows "x = x' \<and> y = y'"
proof -
  have "join_with ''/'' ((S @ [x]) @ [y]) = join_with ''/'' ((S @ [x']) @ [y'])"
    using e by simp
  then have "join_with ''/'' (S @ [x]) @ CHR ''/'' # y = join_with ''/'' (S @ [x']) @ CHR ''/'' # y'"
    by (simp only: join_with_snoc [of _ "S @ [x]"] join_with_snoc [of _ "S @ [x']"]) simp
  from last_separator_inj [OF y this]
  have j: "join_with ''/'' (S @ [x]) = join_with ''/'' (S @ [x'])" and yy: "y = y'" by simp_all
  from join_last_inj [OF x j] yy show ?thesis by simp
qed

lemma is_uuid_length: "is_uuid s \<Longrightarrow> length s = 36"
proof -
  assume "is_uuid s"
  then have "length uuid_pattern = length s"
    unfolding is_uuid_def by (rule list_all2_lengthD)
  moreover have "length uuid_pattern = 36" by (simp add: uuid_pattern_def)
  ultimately show ?thesis by simp
qed

lemma is_uuid_chars:
  assumes "is_uuid s" and "c \<in> set s"
  shows "is_hex c \<or> c = CHR ''-''"
proof -
  from assms(2) obtain i where i: "i < length s" and c: "s ! i = c"
    by (auto simp: in_set_conv_nth)
  from assms(1) i have "if uuid_pattern ! i = CHR ''-'' then s ! i = CHR ''-'' else is_hex (s ! i)"
    unfolding is_uuid_def by (rule list_all2_nthD2)
  with c show ?thesis by (auto split: if_splits)
qed

lemma is_uuid_plain: "is_uuid s \<Longrightarrow> plain_segment s"
proof -
  assume u: "is_uuid s"
  have "CHR ''/'' \<notin> set s"
  proof
    assume "CHR ''/'' \<in> set s"
    from is_uuid_chars [OF u this] show False by (simp add: is_hex_def)
  qed
  moreover from is_uuid_length [OF u] have "s \<noteq> []" "s \<noteq> ''.''" "s \<noteq> ''..''" by auto
  ultimately show ?thesis by (simp add: plain_segment_def)
qed

lemma is_variant_id_split:
  assumes "is_variant_id v"
  obtains d where "v = ''style-'' @ d" and "d \<noteq> []" and "list_all is_digit d"
proof -
  from assms have p: "prefix ''style-'' v" and n: "drop 6 v \<noteq> []"
    and l: "list_all is_digit (drop 6 v)"
    unfolding is_variant_id_def by blast+
  from p obtain d where v: "v = ''style-'' @ d" by (rule prefixE)
  then have "drop 6 v = d" by simp
  with n l have "d \<noteq> []" "list_all is_digit d" by simp_all
  with v show ?thesis by (rule that)
qed

lemma digits_no_separator:
  assumes "list_all is_digit d"
  shows "CHR ''/'' \<notin> set d \<and> CHR ''-'' \<notin> set d"
proof -
  have "\<not> is_digit (CHR ''/'')" "\<not> is_digit (CHR ''-'')"
    by (simp_all add: is_digit_def)
  with assms show ?thesis unfolding list_all_iff by blast
qed

lemma is_variant_id_plain: "is_variant_id v \<Longrightarrow> plain_segment v"
proof -
  assume "is_variant_id v"
  then obtain d where v: "v = ''style-'' @ d" and d: "list_all is_digit d"
    by (rule is_variant_id_split)
  from digits_no_separator [OF d] show ?thesis
    by (simp add: plain_segment_def v)
qed

lemma collapse_runs_chars: "c \<in> set (collapse_runs s) \<Longrightarrow> is_slug_char c \<or> c = CHR ''-''"
  by (induction s rule: collapse_runs.induct) (auto split: if_splits)

lemma toSlug_chars:
  assumes "c \<in> set (toSlug v)"
  shows "is_slug_char c \<or> c = CHR ''-''"
proof (cases "strip_hyphens (collapse_runs (toLowerCase v)) = []")
  case True
  with assms have "c \<in> set ''style''" by (simp add: toSlug_def str_or_def)
  then show ?thesis by (auto simp: is_slug_char_def)
next
  case False
  with assms have "c \<in> set (strip_hyphens (collapse_runs (toLowerCase v)))"
    by (simp add: toSlug_def str_or_def)
  then have "c \<in> set (collapse_runs (toLowerCase v))"
    by (auto simp: strip_hyphens_def dest!: set_dropWhileD)
  then show ?thesis by (rule collapse_runs_chars)
qed

lemma toSlug_no_slash: "CHR ''/'' \<notin> set (toSlug v)"
proof
  assume "CHR ''/'' \<in> set (toSlug v)"
  from toSlug_chars [OF this] show False by (simp add: is_slug_char_def)
qed

lemma job_file_plain:
  assumes "is_uuid rid" and "is_variant_id vid"
  shows "plain_segment (rid @ ''-'' @ vid @ ''-'' @ toSlug name @ ''.mp4'')"
proof -
  define f where "f = rid @ ''-'' @ vid @ ''-'' @ toSlug name @ ''.mp4''"
  from is_uuid_plain [OF assms(1)] is_variant_id_plain [OF assms(2)] toSlug_no_slash [of name]
  have s: "CHR ''/'' \<notin> set f"
    by (simp add: plain_segment_def f_def)
  from is_uuid_length [OF assms(1)] have l: "2 < length f" by (simp add: f_def)
  have "f \<noteq> []" "f \<noteq> ''.''" "f \<noteq> ''..''"
    using l by auto
  with s have "plain_segment f" by (simp add: plain_segment_def)
  then show ?thesis by (simp only: f_def)
qed

lemma job_file_inj:
  assumes r: "is_uuid rid" "is_uuid rid'" and v: "is_variant_id vid" "is_variant_id vid'"
    and e: "rid @ ''-'' @ vid @ ''-'' @ slug @ ''.mp4'' = rid' @ ''-'' @ vid' @ ''-'' @ slug' @ ''.mp4''"
  shows "rid = rid' \<and> vid = vid'"
proof -
  define ta where "ta = slug @ ''.mp4''"
  define tb where "tb = slug' @ ''.mp4''"
  from v(1) obtain d where d: "vid = ''style-'' @ d" "list_all is_digit d"
    by (rule is_variant_id_split)
  from v(2) obtain d' where d': "vid' = ''style-'' @ d'" "list_all is_digit d'"
    by (rule is_variant_id_split)
  from r have len: "length rid = length rid'" by (simp add: is_uuid_length)
  have e1: "rid @ (''-style-'' @ d @ CHR ''-'' # ta) = rid' @ (''-style-'' @ d' @ CHR ''-'' # tb)"
    using e by (simp add: d(1) d'(1) ta_def tb_def)
  from len have "(rid @ (''-style-'' @ d @ CHR ''-'' # ta) = rid' @ (''-style-'' @ d' @ CHR ''-'' # tb))
      = (rid = rid' \<and> ''-style-'' @ d @ CHR ''-'' # ta = ''-style-'' @ d' @ CHR ''-'' # tb)"
    by (intro append_eq_append_conv) simp
  with e1 have rr: "rid = rid'"
    and e2: "''-style-'' @ d @ CHR ''-'' # ta = ''-style-'' @ d' @ CHR ''-'' # tb"
    by blast+
  from e2 have e3: "d @ CHR ''-'' # ta = d' @ CHR ''-'' # tb" by simp
  from digits_no_separator [OF d(2)] have nd: "CHR ''-'' \<notin> set d" by blast
  from digits_no_separator [OF d'(2)] have nd': "CHR ''-'' \<notin> set d'" by blast
  from first_separator_inj [OF nd nd' e3] have "d = d'" by blast
  with rr d(1) d'(1) show ?thesis by simp
qed

lemma jobsDir_eq:
  assumes "is_uuid (requestId a)" and "is_variant_id (in_variantId a)"
  shows "jobsDir (render_job sv a) =
           (if join_absolute [cwd sv, ''.generated'', ''jobs''] then ''/'' else [])
           @ join_with ''/'' (join_stack [cwd sv, ''.generated'', ''jobs'']
                                @ [requestId a, in_variantId a])"
proof -
  let ?pre = "[cwd sv, ''.generated'', ''jobs'']"
  have r: "plain_segment (requestId a)" using assms(1) by (rule is_uuid_plain)
  have v: "plain_segment (in_variantId a)" using assms(2) by (rule is_variant_id_plain)
  have "jobsDir (render_job sv a) = path_join ((?pre @ [requestId a]) @ [in_variantId a])"
    by (simp add: render_job_def Let_def)
  also have "\<dots> = (if join_absolute (?pre @ [requestId a]) then ''/'' else [])
      @ join_with ''/'' (join_stack (?pre @ [requestId a]) @ [in_variantId a])"
    using v by (rule path_join_snoc)
  finally show ?thesis
    by (simp only: join_absolute_snoc [OF r] join_stack_snoc [OF r]) simp
qed

lemma outputLocation_eq:
  assumes "is_uuid (requestId a)" and "is_variant_id (in_variantId a)"
  shows "outputLocation (render_job sv a) =
           (if join_absolute [cwd sv, ''public'', ''renders''] then ''/'' else [])
           @ join_with ''/'' (join_stack [cwd sv, ''public'', ''renders'']
                @ [requestId a @ ''-'' @ in_variantId a @ ''-'' @ toSlug (in_styleName a) @ ''.mp4''])"
proof -
  let ?pre = "[cwd sv, ''public'', ''renders'']"
  let ?file = "requestId a @ ''-'' @ in_variantId a @ ''-'' @ toSlug (in_styleName a) @ ''.mp4''"
  have f: "plain_segment ?file" using assms by (rule job_file_plain)
  have "outputLocation (render_job sv a) = path_join (?pre @ [?file])"
    by (simp add: render_job_def Let_def)
  also have "\<dots> = (if join_absolute ?pre then ''/'' else [])
      @ join_with ''/'' (join_stack ?pre @ [?file])"
    using f by (rule path_join_snoc)
  finally show ?thesis .
qed

text \<open>
  C7. Two render inputs whose request ids are UUIDs and whose variant ids have the form
  \<open>style-N\<close>, and which differ in the pair (request id, variant id), get different job
  workspace directories and different output file paths, whatever their style names (so also
  when both style names give the same slug) and whatever the working directory.
\<close>

theorem render_paths_isolated:
  assumes a: "is_uuid (requestId a)" "is_variant_id (in_variantId a)"
    and b: "is_uuid (requestId b)" "is_variant_id (in_variantId b)"
    and ne: "(requestId a, in_variantId a) \<noteq> (requestId b, in_variantId b)"
  shows "jobsDir (render_job sv a) \<noteq> jobsDir (render_job sv b)
       \<and> outputLocation (render_job sv a) \<noteq> outputLocation (render_job sv b)"
proof (intro conjI notI)
  assume "jobsDir (render_job sv a) = jobsDir (render_job sv b)"
  then have "(if join_absolute [cwd sv, ''.generated'', ''jobs''] then ''/'' else [])
           @ join_with ''/'' (join_stack [cwd sv, ''.generated'', ''jobs'']
                                @ [requestId a, in_variantId a])
         = (if join_absolute [cwd sv, ''.generated'', ''jobs''] then ''/'' else [])
           @ join_with ''/'' (join_stack [cwd sv, ''.generated'', ''jobs'']
                                @ [requestId b, in_variantId b])"
    unfolding jobsDir_eq [OF a] jobsDir_eq [OF b] .
  then have e: "join_with ''/'' (join_stack [cwd sv, ''.generated'', ''jobs'']
                                @ [requestId a, in_variantId a])
           = join_with ''/'' (join_stack [cwd sv, ''.generated'', ''jobs'']
                                @ [requestId b, in_variantId b])"
    by (rule same_append_eq [THEN iffD1])
  have ra: "CHR ''/'' \<notin> set (requestId a)"
    using is_uuid_plain [OF a(1)] unfolding plain_segment_def by blast
  have rb: "CHR ''/'' \<notin> set (requestId b)"
    using is_uuid_plain [OF b(1)] unfolding plain_segment_def by blast
  have va: "CHR ''/'' \<notin> set (in_variantId a)"
    using is_variant_id_plain [OF a(2)] unfolding plain_segment_def by blast
  have vb: "CHR ''/'' \<notin> set (in_variantId b)"
    using is_variant_id_plain [OF b(2)] unfolding plain_segment_def by blast
  from join_last_two_inj [OF ra rb va vb e] ne show False by simp
next
  define fa where
    "fa = requestId a @ ''-'' @ in_variantId a @ ''-'' @ toSlug (in_styleName a) @ ''.mp4''"
  define fb where
    "fb = requestId b @ ''-'' @ in_variantId b @ ''-'' @ toSlug (in_styleName b) @ ''.mp4''"
  assume "outputLocation (render_job sv a) = outputLocation (render_job sv b)"
  then have "(if join_absolute [cwd sv, ''public'', ''renders''] then ''/'' else [])
           @ join_with ''/'' (join_stack [cwd sv, ''public'', ''renders''] @ [fa])
         = (if join_absolute [cwd sv, ''public'', ''renders''] then ''/'' else [])
           @ join_with ''/'' (join_stack [cwd sv, ''public'', ''renders''] @ [fb])"
    unfolding outputLocation_eq [OF a] outputLocation_eq [OF b] fa_def fb_def .
  then have e: "join_with ''/'' (join_stack [cwd sv, ''public'', ''renders''] @ [fa])
           = join_with ''/'' (join_stack [cwd sv, ''public'', ''renders''] @ [fb])"
    by (rule same_append_eq [THEN iffD1])
  have sa: "CHR ''/'' \<notin> set fa"
    using job_file_plain [OF a, of "in_styleName a"] unfolding plain_segment_def fa_def by blast
  have sb: "CHR ''/'' \<notin> set fb"
    using job_file_plain [OF b, of "in_styleName b"] unfolding plain_segment_def fb_def by blast
  from join_last_inj [OF sa sb e] have "fa = fb" .
  then have "requestId a = requestId b \<and> in_variantId a = in_variantId b"
    unfolding fa_def fb_def by (rule job_file_inj [OF a(1) b(1) a(2) b(2)])
  with ne show False by simp
qed

theorem render_paths_isolated_witness:
  "is_uuid (requestId example_input) \<and> is_variant_id (in_variantId example_input)
   \<and> is_uuid (requestId example_input2) \<and> is_variant_id (in_variantId example_input2)
   \<and> toSlug (in_styleName example_input) = toSlug (in_styleName example_input2)
   \<and> jobsDir (render_job (example_services (constant_answer []) engine_ok) example_input)
       \<noteq> jobsDir (render_job (example_services (constant_answer []) engine_ok) example_input2)
   \<and> outputLocation (render_job (example_services (constant_answer []) engine_ok) example_input)
       \<noteq> outputLocation (render_job (example_services (constant_answer []) engine_ok) example_input2)"
proof -
  have a: "is_uuid (requestId example_input)" "is_variant_id (in_variantId example_input)"
    by code_simp+
  have b: "is_uuid (requestId example_input2)" "is_variant_id (in_variantId example_input2)"
    by code_simp+
  have ne: "(requestId example_input, in_variantId example_input)
      \<noteq> (requestId example_input2, in_variantId example_input2)"
    by (simp add: example_input_def example_input2_def)
  have s: "toSlug (in_styleName example_input) = toSlug (in_styleName example_input2)"
    by (simp add: example_input_def example_input2_def)
  from render_paths_isolated [OF a b ne, of "example_services (constant_answer []) engine_ok"] a b s
  show ?thesis by blast
qed

end
